theory Spec2Isabelle
  imports Complex_Main "HOL-Library.Product_Lexorder"
begin

section \<open>Admission controller: the token bucket of shared/core/anti\_block.py\<close>

text \<open>
  Python floats are idealised as exact rationals: \<open>capacity\<close> is the \<open>int\<close> of the
  signature, \<open>fill_rate\<close>, \<open>tokens\<close> and the clock are \<open>rat\<close>. The wall clock
  \<open>time.time()\<close> is an explicit argument; \<open>time.sleep d\<close> advances it by \<open>d\<close>, and
  the statements between two clock readings take no time. The lock is not modelled (one
  caller).
\<close>

datatype py_error =
    ValueError | ZeroDivisionError | NameError | TypeError | AttributeError
  | IntegrityError | StaleDataError | ConnectionError

record TokenBucket =
  capacity :: int
  fill_rate :: rat
  tokens :: rat
  last_refill_time :: rat

text \<open>\<open>TokenBucketAntiBlockStrategy.__init__\<close>; \<open>now\<close> is the reading of \<open>time.time()\<close>.\<close>

definition init_bucket :: "int \<Rightarrow> rat \<Rightarrow> int option \<Rightarrow> rat \<Rightarrow> py_error + TokenBucket" where
  "init_bucket cap rate initial_tokens now =
     (if cap \<le> 0 \<or> rate \<le> 0 then Inl ValueError
      else Inr \<lparr> capacity = cap,
                 fill_rate = rate,
                 tokens = (case initial_tokens of Some t \<Rightarrow> of_int t | None \<Rightarrow> of_int cap),
                 last_refill_time = now \<rparr>)"

text \<open>\<open>_refill_tokens\<close>.\<close>

definition refill_tokens :: "TokenBucket \<Rightarrow> rat \<Rightarrow> TokenBucket" where
  "refill_tokens b now =
     (let time_passed = now - last_refill_time b;
          new_tokens = time_passed * fill_rate b
      in b \<lparr> tokens := min (of_int (capacity b)) (tokens b + new_tokens),
             last_refill_time := now \<rparr>)"

text \<open>
  \<open>wait_before_request\<close>: the \<open>while True\<close> loop. The result is the bucket, the clock
  at return and the durations slept, in order. A loop that never ends is \<open>None\<close>; the
  division by a zero \<open>fill_rate\<close> and \<open>time.sleep\<close> of a negative duration raise.
\<close>

definition SLEEP_MARGIN :: rat where
  "SLEEP_MARGIN = 1 / 100"

partial_function (option) wait_loop ::
  "TokenBucket \<Rightarrow> rat \<Rightarrow> rat list \<Rightarrow> (py_error + TokenBucket \<times> rat \<times> rat list) option" where
  "wait_loop b now slept =
     (let b1 = refill_tokens b now in
      if tokens b1 \<ge> 1 then Some (Inr (b1 \<lparr> tokens := tokens b1 - 1 \<rparr>, now, slept))
      else if fill_rate b1 = 0 then Some (Inl ZeroDivisionError)
      else
        let tokens_needed = 1 - tokens b1;
            time_to_wait = tokens_needed / fill_rate b1
        in if time_to_wait + SLEEP_MARGIN < 0 then Some (Inl ValueError)
           else wait_loop b1 (now + (time_to_wait + SLEEP_MARGIN))
                  (slept @ [time_to_wait + SLEEP_MARGIN]))"

definition wait_before_request ::
  "TokenBucket \<Rightarrow> rat \<Rightarrow> (py_error + TokenBucket \<times> rat \<times> rat list) option" where
  "wait_before_request b now = wait_loop b now []"

text \<open>The buckets \<open>__init__\<close> can build: the state invariant of the class.\<close>

definition valid_bucket :: "TokenBucket \<Rightarrow> bool" where
  "valid_bucket b = (0 < capacity b \<and> 0 < fill_rate b)"

section \<open>Live scheduler: the constants of live-monitor/main.py\<close>

definition ACTIVE_POLL_INTERVAL_SECONDS :: rat where
  "ACTIVE_POLL_INTERVAL_SECONDS = 15"

definition HIBERNATION_POLL_INTERVAL_SECONDS :: rat where
  "HIBERNATION_POLL_INTERVAL_SECONDS = 300"

definition MATCH_PROXIMITY_BUFFER_MINUTES :: rat where
  "MATCH_PROXIMITY_BUFFER_MINUTES = 30"

section \<open>Canonical store: shared/database/models.py\<close>

text \<open>
  A Python dictionary entry: the key is not in the dictionary, or it maps to \<open>None\<close>,
  or it maps to a value. \<open>dict.get\<close> cannot tell the first two apart; the loop over
  \<open>items()\<close> can.
\<close>

datatype 'a entry = Absent | PyNone | Val 'a

fun dict_get :: "'a entry \<Rightarrow> 'a option" where
  "dict_get Absent = None"
| "dict_get PyNone = None"
| "dict_get (Val v) = Some v"

text \<open>The statistics document: groups of named numbers.\<close>

type_synonym stats = "(string \<times> (string \<times> int) list) list"

text \<open>
  \<open>normalized_event_data\<close>: the dictionary the normalizers build, one entry per key
  (the fourteen keys of \<open>normalize_sofascore_match\<close> and
  \<open>normalize_thesportsdb_match\<close>, each a column of \<open>Event\<close>). Instants
  (\<open>datetime\<close> with time zone) are seconds since the epoch.
\<close>

record normalized_event_data =
  k_event_name :: "string entry"
  k_sport_name :: "string entry"
  k_event_status :: "string entry"
  k_current_game_time :: "int entry"
  k_home_team_name :: "string entry"
  k_away_team_name :: "string entry"
  k_home_score :: "int entry"
  k_away_score :: "int entry"
  k_league_name :: "string entry"
  k_league_id :: "string entry"
  k_event_timestamp :: "int entry"
  k_last_data_source :: "string entry"
  k_last_updated_timestamp :: "int entry"
  k_statistics :: "stats entry"

record source_mapping_data =
  k_source_name :: "string entry"
  k_source_event_id :: "string entry"

text \<open>
  An \<open>Event\<close> object of the ORM, and a row of the table \<open>events\<close>. Every attribute
  can hold \<open>None\<close> in the session; the \<open>nullable=False\<close> columns are checked when the row
  is written. The columns \<open>created_at\<close> and \<open>updated_at\<close> are filled by the ORM from
  the wall clock, no code of the repository reads them, and they are left out.
\<close>

record Event =
  ev_id :: nat
  event_name :: "string option"
  sport_name :: "string option"
  event_status :: "string option"
  current_game_time :: "int option"
  home_team_name :: "string option"
  away_team_name :: "string option"
  home_score :: "int option"
  away_score :: "int option"
  league_name :: "string option"
  league_id :: "string option"
  event_timestamp :: "int option"
  last_data_source :: "string option"
  last_updated_timestamp :: "int option"
  statistics :: "stats option"

record EventSourceMapping =
  m_id :: nat
  event_id :: nat
  source_name :: string
  source_event_id :: string

text \<open>The database: the rows of the two tables, in insertion order.\<close>

record store =
  events :: "Event list"
  mappings :: "EventSourceMapping list"

definition empty_store :: store where
  "empty_store = \<lparr> events = [], mappings = [] \<rparr>"

text \<open>\<open>nullable=False\<close> on the columns of \<open>Event\<close>.\<close>

definition not_null_ok :: "Event \<Rightarrow> bool" where
  "not_null_ok e =
     (event_name e \<noteq> None \<and> sport_name e \<noteq> None \<and> event_status e \<noteq> None \<and>
      home_team_name e \<noteq> None \<and> away_team_name e \<noteq> None \<and> event_timestamp e \<noteq> None)"

text \<open>
  \<open>UniqueConstraint('event_timestamp', 'home_team_name', 'away_team_name', 'league_id',
  name='uq_event_canonical')\<close>. The engine is PostgreSQL (\<open>db_config.py\<close>:
  \<open>postgresql+psycopg2\<close>; \<open>models.py\<close>: \<open>JSONB\<close>), where a unique constraint
  compares only rows whose constrained columns are all non-null: two rows with a null
  \<open>league_id\<close> never violate it.
\<close>

definition dedup_key :: "Event \<Rightarrow> int option \<times> string option \<times> string option \<times> string option" where
  "dedup_key e = (event_timestamp e, home_team_name e, away_team_name e, league_id e)"

definition uq_event_canonical_violated :: "Event \<Rightarrow> Event \<Rightarrow> bool" where
  "uq_event_canonical_violated e e' =
     (event_timestamp e \<noteq> None \<and> home_team_name e \<noteq> None \<and> away_team_name e \<noteq> None \<and>
      league_id e \<noteq> None \<and> dedup_key e = dedup_key e')"

text \<open>
  \<open>UniqueConstraint('source_name', 'source_event_id', name='uq_source_event')\<close> and
  \<open>UniqueConstraint('event_id', 'source_name', name='uq_event_id_source')\<close>.
\<close>

definition uq_source_event_violated :: "EventSourceMapping \<Rightarrow> EventSourceMapping \<Rightarrow> bool" where
  "uq_source_event_violated m m' =
     (source_name m = source_name m' \<and> source_event_id m = source_event_id m')"

definition uq_event_id_source_violated :: "EventSourceMapping \<Rightarrow> EventSourceMapping \<Rightarrow> bool" where
  "uq_event_id_source_violated m m' =
     (event_id m = event_id m' \<and> source_name m = source_name m')"

text \<open>The primary key a table's sequence hands out: above every key in use.\<close>

definition fresh_id :: "nat list \<Rightarrow> nat" where
  "fresh_id ids = Suc (foldr max ids 0)"

text \<open>
  \<open>INSERT INTO events\<close>: the column defaults of \<open>models.py\<close> fill what the object
  does not give (\<open>home_score\<close> and \<open>away_score\<close>: 0 when the attribute is \<open>None\<close>;
  \<open>statistics\<close>: the empty document when the key was not given, a JSON column keeps
  an explicit \<open>None\<close>), then the constraints are checked.
\<close>

definition insert_values :: "normalized_event_data \<Rightarrow> Event \<Rightarrow> Event" where
  "insert_values d e =
     e \<lparr> home_score := (case home_score e of None \<Rightarrow> Some 0 | Some v \<Rightarrow> Some v),
         away_score := (case away_score e of None \<Rightarrow> Some 0 | Some v \<Rightarrow> Some v),
         statistics := (case k_statistics d of Absent \<Rightarrow> Some [] | _ \<Rightarrow> statistics e) \<rparr>"

definition insert_event :: "store \<Rightarrow> normalized_event_data \<Rightarrow> Event \<Rightarrow> py_error + store \<times> Event" where
  "insert_event db d e =
     (let row = (insert_values d e) \<lparr> ev_id := fresh_id (map ev_id (events db)) \<rparr> in
      if \<not> not_null_ok row \<or> list_ex (uq_event_canonical_violated row) (events db)
      then Inl IntegrityError
      else Inr (db \<lparr> events := events db @ [row] \<rparr>, row))"

text \<open>\<open>UPDATE events ... WHERE id = ...\<close> of a changed object.\<close>

definition update_event :: "store \<Rightarrow> Event \<Rightarrow> py_error + store" where
  "update_event db e =
     (if \<not> list_ex (\<lambda>r. ev_id r = ev_id e) (events db) then Inl StaleDataError
      else if \<not> not_null_ok e \<or>
              list_ex (\<lambda>r. ev_id r \<noteq> ev_id e \<and> uq_event_canonical_violated e r) (events db)
      then Inl IntegrityError
      else Inr (db \<lparr> events := map (\<lambda>r. if ev_id r = ev_id e then e else r) (events db) \<rparr>))"

text \<open>\<open>INSERT INTO event_source_mappings\<close>, with its foreign key to \<open>events.id\<close>.\<close>

definition insert_mapping :: "store \<Rightarrow> nat \<Rightarrow> string \<Rightarrow> string \<Rightarrow> py_error + store" where
  "insert_mapping db eid sn sid =
     (let row = \<lparr> m_id = fresh_id (map m_id (mappings db)), event_id = eid,
                   source_name = sn, source_event_id = sid \<rparr> in
      if \<not> list_ex (\<lambda>r. ev_id r = eid) (events db) \<or>
         list_ex (uq_source_event_violated row) (mappings db) \<or>
         list_ex (uq_event_id_source_violated row) (mappings db)
      then Inl IntegrityError
      else Inr (db \<lparr> mappings := mappings db @ [row] \<rparr>))"


section \<open>Canonical store: DataAccess.save\_or\_update\_event\<close>

text \<open>
  Python truthiness, as \<open>all([...])\<close> on line 54 reads it: \<open>None\<close>, the empty string
  and the integer 0 are false; a \<open>datetime\<close> is always true.
\<close>

fun truthy_str :: "string entry \<Rightarrow> string option" where
  "truthy_str (Val s) = (if s = [] then None else Some s)"
| "truthy_str _ = None"

fun truthy_int :: "int entry \<Rightarrow> int option" where
  "truthy_int (Val n) = (if n = 0 then None else Some n)"
| "truthy_int _ = None"

fun truthy_datetime :: "int entry \<Rightarrow> int option" where
  "truthy_datetime (Val t) = Some t"
| "truthy_datetime _ = None"

text \<open>Lines 42--56: the values read with \<open>.get\<close>, and the guard that returns \<open>None\<close>.\<close>

record upsert_args =
  a_event_timestamp :: int
  a_home_team_name :: string
  a_away_team_name :: string
  a_league_id :: "string option"
  a_incoming_last_updated_timestamp :: int
  a_source_name :: string
  a_source_event_id :: string

definition validate :: "normalized_event_data \<Rightarrow> source_mapping_data \<Rightarrow> upsert_args option" where
  "validate d m =
     Option.bind (truthy_datetime (k_event_timestamp d)) (\<lambda>ts.
     Option.bind (truthy_str (k_home_team_name d)) (\<lambda>home.
     Option.bind (truthy_str (k_away_team_name d)) (\<lambda>away.
     Option.bind (truthy_str (k_source_name m)) (\<lambda>sn.
     Option.bind (truthy_str (k_source_event_id m)) (\<lambda>sid.
     Option.bind (truthy_int (k_last_updated_timestamp d)) (\<lambda>its.
       Some \<lparr> a_event_timestamp = ts, a_home_team_name = home, a_away_team_name = away,
              a_league_id = dict_get (k_league_id d),
              a_incoming_last_updated_timestamp = its,
              a_source_name = sn, a_source_event_id = sid \<rparr>))))))"

text \<open>
  The queries. \<open>.first()\<close> takes the first row in table order. Comparing a column with
  \<open>None\<close> is \<open>IS NULL\<close> in SQLAlchemy, so the lookup by attributes also finds a row
  whose \<open>league_id\<close> is null when the incoming one is \<open>None\<close>.
\<close>

definition find_mapping :: "store \<Rightarrow> string \<Rightarrow> string \<Rightarrow> EventSourceMapping option" where
  "find_mapping s sn sid =
     find (\<lambda>r. source_name r = sn \<and> source_event_id r = sid) (mappings s)"

definition mapping_event :: "store \<Rightarrow> EventSourceMapping \<Rightarrow> Event option" where
  "mapping_event s mp = find (\<lambda>r. ev_id r = event_id mp) (events s)"

definition key_matches :: "upsert_args \<Rightarrow> Event \<Rightarrow> bool" where
  "key_matches a r =
     (event_timestamp r = Some (a_event_timestamp a) \<and>
      home_team_name r = Some (a_home_team_name a) \<and>
      away_team_name r = Some (a_away_team_name a) \<and>
      league_id r = a_league_id a)"

definition find_event_by_attributes :: "store \<Rightarrow> upsert_args \<Rightarrow> Event option" where
  "find_event_by_attributes s a = find (key_matches a) (events s)"

text \<open>
  Lines 63--83. A mapping whose event is missing gives \<open>existing_event = None\<close>, and
  the log line reading \<open>existing_event.id\<close> raises.
\<close>

definition resolve_target ::
  "store \<Rightarrow> upsert_args \<Rightarrow> py_error + EventSourceMapping option \<times> Event option" where
  "resolve_target s a =
     (case find_mapping s (a_source_name a) (a_source_event_id a) of
        Some existing_mapping \<Rightarrow>
          (case mapping_event s existing_mapping of
             None \<Rightarrow> Inl AttributeError
           | Some existing_event \<Rightarrow> Inr (Some existing_mapping, Some existing_event))
      | None \<Rightarrow> Inr (None, find_event_by_attributes s a))"

text \<open>
  Lines 87--104: the merge decision. Comparing the incoming integer with a stored
  \<open>None\<close> raises \<open>TypeError\<close>.
\<close>

definition should_update :: "normalized_event_data \<Rightarrow> int \<Rightarrow> Event \<Rightarrow> py_error + bool" where
  "should_update d incoming_last_updated_timestamp existing_event =
     (case last_updated_timestamp existing_event of
        None \<Rightarrow> Inl TypeError
      | Some stored \<Rightarrow>
          if incoming_last_updated_timestamp > stored then Inr True
          else if incoming_last_updated_timestamp = stored then
            (if (dict_get (k_event_status d) = Some ''inprogress'' \<or>
                 event_status existing_event = Some ''inprogress'')
             then (case dict_get (k_current_game_time d) of
                     None \<Rightarrow> Inr False
                   | Some incoming_current_game_time \<Rightarrow>
                       (case current_game_time existing_event of
                          None \<Rightarrow> Inr True
                        | Some existing \<Rightarrow> Inr (incoming_current_game_time > existing)))
             else Inr False)
          else Inr False)"

text \<open>
  Lines 109--114: \<open>setattr\<close> for every key of the dictionary, then the source and the
  time stamp.
\<close>

fun assign :: "'a entry \<Rightarrow> 'a option \<Rightarrow> 'a option" where
  "assign Absent old = old"
| "assign PyNone old = None"
| "assign (Val v) old = Some v"

definition apply_update :: "normalized_event_data \<Rightarrow> string \<Rightarrow> int \<Rightarrow> Event \<Rightarrow> Event" where
  "apply_update d sn incoming_last_updated_timestamp e =
     e \<lparr> event_name := assign (k_event_name d) (event_name e),
         sport_name := assign (k_sport_name d) (sport_name e),
         event_status := assign (k_event_status d) (event_status e),
         current_game_time := assign (k_current_game_time d) (current_game_time e),
         home_team_name := assign (k_home_team_name d) (home_team_name e),
         away_team_name := assign (k_away_team_name d) (away_team_name e),
         home_score := assign (k_home_score d) (home_score e),
         away_score := assign (k_away_score d) (away_score e),
         league_name := assign (k_league_name d) (league_name e),
         league_id := assign (k_league_id d) (league_id e),
         event_timestamp := assign (k_event_timestamp d) (event_timestamp e),
         statistics := assign (k_statistics d) (statistics e),
         last_data_source := Some sn,
         last_updated_timestamp := Some incoming_last_updated_timestamp \<rparr>"

text \<open>Lines 120--121: \<open>Event(**normalized_event_data)\<close>; the id comes with the flush.\<close>

definition Event_init :: "normalized_event_data \<Rightarrow> string \<Rightarrow> Event" where
  "Event_init d sn =
     \<lparr> ev_id = 0,
       event_name = dict_get (k_event_name d),
       sport_name = dict_get (k_sport_name d),
       event_status = dict_get (k_event_status d),
       current_game_time = dict_get (k_current_game_time d),
       home_team_name = dict_get (k_home_team_name d),
       away_team_name = dict_get (k_away_team_name d),
       home_score = dict_get (k_home_score d),
       away_score = dict_get (k_away_score d),
       league_name = dict_get (k_league_name d),
       league_id = dict_get (k_league_id d),
       event_timestamp = dict_get (k_event_timestamp d),
       last_data_source = Some sn,
       last_updated_timestamp = dict_get (k_last_updated_timestamp d),
       statistics = dict_get (k_statistics d) \<rparr>"

text \<open>
  The row the flush of line 123 writes for the new event: the object of lines 120--121
  with the column defaults and its primary key.
\<close>

definition new_row :: "store \<Rightarrow> normalized_event_data \<Rightarrow> upsert_args \<Rightarrow> Event" where
  "new_row s d a =
     (insert_values d (Event_init d (a_source_name a)))
       \<lparr> ev_id := fresh_id (map ev_id (events s)) \<rparr>"

definition bind_err :: "py_error + 'a \<Rightarrow> ('a \<Rightarrow> py_error + 'b) \<Rightarrow> py_error + 'b" where
  "bind_err r f = (case r of Inl err \<Rightarrow> Inl err | Inr x \<Rightarrow> f x)"

text \<open>
  Lines 128--139: the mapping is added when none was found, and \<open>session.commit()\<close>
  writes the changed event and the new mapping.
\<close>

definition commit ::
  "store \<Rightarrow> Event option \<Rightarrow> bool \<Rightarrow> nat \<Rightarrow> upsert_args \<Rightarrow> py_error + store" where
  "commit db changed new_mapping eid a =
     bind_err (case changed of None \<Rightarrow> Inr db | Some e \<Rightarrow> update_event db e) (\<lambda>db1.
       if new_mapping then insert_mapping db1 eid (a_source_name a) (a_source_event_id a)
       else Inr db1)"

text \<open>
  The \<open>try\<close> body, lines 61--141. The lookups read \<open>snapshot\<close>; the writes go to
  \<open>db\<close>. In a run without another writer the two are the same database; they differ
  when another session commits between the lookups and the writes.
\<close>

definition attempt ::
  "store \<Rightarrow> store \<Rightarrow> normalized_event_data \<Rightarrow> upsert_args \<Rightarrow> py_error + Event \<times> store" where
  "attempt snapshot db d a =
     bind_err (resolve_target snapshot a) (\<lambda>(existing_mapping, found).
       case found of
         Some existing_event \<Rightarrow>
           bind_err (should_update d (a_incoming_last_updated_timestamp a) existing_event)
             (\<lambda>upd.
               let e = (if upd
                        then apply_update d (a_source_name a)
                               (a_incoming_last_updated_timestamp a) existing_event
                        else existing_event)
               in bind_err
                    (commit db (if upd then Some e else None) (existing_mapping = None)
                       (ev_id e) a)
                    (\<lambda>db'. Inr (e, db')))
       | None \<Rightarrow>
           bind_err (insert_event db d (Event_init d (a_source_name a)))
             (\<lambda>(db1, new_event).
               bind_err (commit db1 None (existing_mapping = None) (ev_id new_event) a)
                 (\<lambda>db'. Inr (new_event, db'))))"

text \<open>
  The return statements of \<open>save_or_update_event\<close>: line 56, line 141, line 155,
  line 156 and line 161. \<open>returned\<close> is the Python value.
\<close>

datatype outcome =
    ValidationFailed
  | Persisted Event
  | ConflictResolved Event
  | ConflictUnresolved
  | UnexpectedError py_error

fun returned :: "outcome \<Rightarrow> Event option" where
  "returned (Persisted e) = Some e"
| "returned (ConflictResolved e) = Some e"
| "returned _ = None"

text \<open>
  Lines 143--161: on \<open>IntegrityError\<close> the transaction is rolled back and the event is
  looked up again by its attributes; any other exception is rolled back and gives
  \<open>None\<close>.
\<close>

definition save_or_update_event_on ::
  "store \<Rightarrow> store \<Rightarrow> normalized_event_data \<Rightarrow> source_mapping_data \<Rightarrow> outcome \<times> store" where
  "save_or_update_event_on snapshot db d m =
     (case validate d m of
        None \<Rightarrow> (ValidationFailed, db)
      | Some a \<Rightarrow>
          (case attempt snapshot db d a of
             Inr (e, db') \<Rightarrow> (Persisted e, db')
           | Inl err \<Rightarrow>
               if err = IntegrityError
               then (case find_event_by_attributes db a of
                       Some existing_event_after_rollback \<Rightarrow>
                         (ConflictResolved existing_event_after_rollback, db)
                     | None \<Rightarrow> (ConflictUnresolved, db))
               else (UnexpectedError err, db)))"

text \<open>\<open>save_or_update_event\<close> with no other writer.\<close>

definition save_or_update_event ::
  "store \<Rightarrow> normalized_event_data \<Rightarrow> source_mapping_data \<Rightarrow> outcome \<times> store" where
  "save_or_update_event s d m = save_or_update_event_on s s d m"

text \<open>
  \<open>save_or_update_event\<close> racing another writer: \<open>s\<close> is the database the lookups
  read, \<open>s'\<close> the database after the other session's commit, which the writes, the
  rollback and the second lookup see.
\<close>

definition save_or_update_event_raced ::
  "store \<Rightarrow> store \<Rightarrow> normalized_event_data \<Rightarrow> source_mapping_data \<Rightarrow> outcome \<times> store" where
  "save_or_update_event_raced s s' d m = save_or_update_event_on s s' d m"

text \<open>A sequence of calls, each on the database the one before left.\<close>

fun upserts :: "store \<Rightarrow> (normalized_event_data \<times> source_mapping_data) list \<Rightarrow> store" where
  "upserts s [] = s"
| "upserts s ((d, m) # rest) = upserts (snd (save_or_update_event s d m)) rest"


section \<open>Canonical store: DataAccess.get\_events\_for\_monitoring\<close>

text \<open>
  Lines 173--178: the query, given the threshold. \<open>ORDER BY event_timestamp ASC\<close>
  puts null instants last in PostgreSQL; rows with equal instants keep table order.
\<close>

definition monitoring_filter :: "int \<Rightarrow> Event \<Rightarrow> bool" where
  "monitoring_filter time_threshold r =
     (event_status r = Some ''inprogress'' \<or>
      (event_status r = Some ''scheduled'' \<and>
       (case event_timestamp r of None \<Rightarrow> False | Some t \<Rightarrow> t \<ge> time_threshold)))"

definition monitoring_query :: "store \<Rightarrow> int \<Rightarrow> Event list" where
  "monitoring_query s time_threshold =
     sort_key (\<lambda>r. case event_timestamp r of None \<Rightarrow> (True, 0) | Some t \<Rightarrow> (False, t))
       (filter (monitoring_filter time_threshold) (events s))"

text \<open>
  The name \<open>timedelta\<close> in the module \<open>data_access.py\<close>. The module imports
  \<open>datetime\<close> from \<open>datetime\<close> (line 7) and nothing else of that module, so the
  name is not bound and reading it on line 171 raises \<open>NameError\<close>.
\<close>

definition timedelta :: "py_error + (int \<Rightarrow> int)" where
  "timedelta = Inl NameError"

text \<open>
  \<open>get_events_for_monitoring\<close>, lines 168--181. \<open>current_time_utc\<close> is the reading of
  the clock in seconds, and the argument of \<open>timedelta\<close> is in minutes.
\<close>

definition get_events_for_monitoring :: "store \<Rightarrow> int \<Rightarrow> int \<Rightarrow> py_error + Event list" where
  "get_events_for_monitoring s current_time_utc time_buffer_minutes =
     bind_err timedelta (\<lambda>minutes.
       let time_threshold = current_time_utc - minutes time_buffer_minutes
       in Inr (monitoring_query s time_threshold))"

section \<open>Live scheduler: monitor\_live\_matches of live-monitor/main.py\<close>

text \<open>
  The methods the classes under \<open>shared/\<close> define. \<open>data_access\<close> is a
  \<open>DataAccess\<close> and \<open>normalizer\<close> a \<open>DataNormalizer\<close>; neither class has a
  \<open>__getattr__\<close>, so reading any other attribute raises \<open>AttributeError\<close>. In
  \<open>getattr\<close> the third argument is what the name would be bound to.
\<close>

definition DataAccess_methods :: "string list" where
  "DataAccess_methods =
     [''create_tables'', ''save_or_update_event'', ''get_events_for_monitoring'',
      ''get_next_scheduled_event_start_time'', ''get_event_by_id'', ''get_event_by_source_id'']"

definition DataNormalizer_methods :: "string list" where
  "DataNormalizer_methods =
     [''_get_current_utc_timestamp'', ''_convert_timestamp_to_utc_datetime'',
      ''_normalize_sofascore_statistics'', ''_normalize_thesportsdb_statistics'',
      ''normalize_sofascore_match'', ''normalize_thesportsdb_match'']"

definition getattr :: "string list \<Rightarrow> string \<Rightarrow> 'f \<Rightarrow> py_error + 'f" where
  "getattr methods name bound = (if name \<in> set methods then Inr bound else Inl AttributeError)"

text \<open>
  Lines 46--75: the first \<open>while True\<close> of \<open>monitor_live_matches\<close>. Each turn opens a
  session, builds the \<open>DataAccess\<close> and closes the session; the loop has no
  \<open>break\<close> and no \<open>return\<close>. The argument counts the turns; the value is \<open>Some\<close>
  when the loop is left.
\<close>

partial_function (option) session_loop :: "nat \<Rightarrow> unit option" where
  "session_loop turns = session_loop (Suc turns)"

text \<open>
  Lines 150--174: the duration handed to \<open>time.sleep\<close> in the hibernating branch,
  given what the query of line 148 returned (Unix seconds, or \<open>None\<close>). \<open>now\<close> is the
  instant of the call in seconds since the epoch; \<open>local_time\<close> gives the reading of
  the local calendar at an instant, in seconds, which is what
  \<open>datetime.fromtimestamp\<close> and \<open>datetime.now\<close> return (no time zone).
  \<open>if next_match_start_time_unix:\<close> is Python truthiness: the integer 0 counts as no
  event.
\<close>

definition hibernation_wait :: "(rat \<Rightarrow> rat) \<Rightarrow> int option \<Rightarrow> rat \<Rightarrow> rat" where
  "hibernation_wait local_time next_start now =
     (case next_start of
        None \<Rightarrow> HIBERNATION_POLL_INTERVAL_SECONDS
      | Some next_match_start_time_unix \<Rightarrow>
          if next_match_start_time_unix = 0 then HIBERNATION_POLL_INTERVAL_SECONDS
          else
            let next_match_datetime = local_time (of_int next_match_start_time_unix);
                current_datetime = local_time now;
                wake_up_time = next_match_datetime - MATCH_PROXIMITY_BUFFER_MINUTES * 60;
                time_to_wait_seconds = wake_up_time - current_datetime
            in if time_to_wait_seconds > 0
               then min time_to_wait_seconds HIBERNATION_POLL_INTERVAL_SECONDS
               else HIBERNATION_POLL_INTERVAL_SECONDS)"

text \<open>
  Lines 144--174: the hibernating branch. Line 148 reads
  \<open>data_access.get_next_scheduled_match_start_time\<close>; \<open>dm\<close> is the list of the
  methods of the class of \<open>data_access\<close>.
\<close>

definition hibernating_branch_in ::
  "string list \<Rightarrow> ('db \<Rightarrow> int option) \<Rightarrow> (rat \<Rightarrow> rat) \<Rightarrow> rat \<Rightarrow> 'db \<Rightarrow> py_error + rat" where
  "hibernating_branch_in dm get_next_scheduled_match_start_time local_time now db =
     bind_err (getattr dm ''get_next_scheduled_match_start_time''
                 get_next_scheduled_match_start_time)
       (\<lambda>query_method. Inr (hibernation_wait local_time (query_method db) now))"

definition hibernating_branch ::
  "('db \<Rightarrow> int option) \<Rightarrow> (rat \<Rightarrow> rat) \<Rightarrow> rat \<Rightarrow> 'db \<Rightarrow> py_error + rat" where
  "hibernating_branch = hibernating_branch_in DataAccess_methods"

text \<open>
  Lines 101--138, one iteration of the loop over \<open>active_matches\<close>. The dictionaries
  are association lists; an empty one is false for \<open>if\<close>. \<open>get_match_data\<close> is the
  adapter (over HTTP, it returns \<open>None\<close> on every failure). Line 109 reads
  \<open>normalizer.normalize_sofascore_data\<close> and line 112
  \<open>data_access.save_match_data\<close>; \<open>nm\<close> and \<open>dm\<close> are the lists of the methods of
  the two classes, and the store call returns the truth value of \<open>success\<close> and the
  database it leaves. \<open>redis_client\<close> is whether the client is an object (not
  \<open>None\<close>); \<open>publish\<close> is whether \<open>redis_client.publish\<close> delivers, when it does
  not it raises \<open>ConnectionError\<close>; \<open>now\<close> is \<open>int(time.time())\<close>. The result is
  the list of messages published on \<open>match_updates\<close>, the exception that left the
  iteration if one did, and the database.
\<close>

datatype json_value = JNone | JInt int | JStr string

type_synonym pydict = "(string \<times> json_value) list"

definition py_get :: "pydict \<Rightarrow> string \<Rightarrow> json_value" where
  "py_get d k = (case map_of d k of None \<Rightarrow> JNone | Some v \<Rightarrow> v)"

definition build_message :: "pydict \<Rightarrow> int \<Rightarrow> pydict" where
  "build_message normalized_data now =
     [(''source_id'', py_get normalized_data ''source_id''),
      (''status'', py_get normalized_data ''status''),
      (''home_team_name'', py_get normalized_data ''home_team_name''),
      (''away_team_name'', py_get normalized_data ''away_team_name''),
      (''home_score'', py_get normalized_data ''home_score''),
      (''away_score'', py_get normalized_data ''away_score''),
      (''minute'', py_get normalized_data ''minute''),
      (''start_time'', py_get normalized_data ''start_time''),
      (''updated_at'', JInt now)]"

definition process_match_in ::
  "string list \<Rightarrow> string list \<Rightarrow>
   (string \<Rightarrow> pydict option) \<Rightarrow> (pydict \<Rightarrow> pydict option) \<Rightarrow> (pydict \<Rightarrow> 'db \<Rightarrow> bool \<times> 'db) \<Rightarrow>
   bool \<Rightarrow> (pydict \<Rightarrow> bool) \<Rightarrow> int \<Rightarrow> string \<Rightarrow> 'db \<Rightarrow> pydict list \<times> py_error option \<times> 'db" where
  "process_match_in nm dm get_match_data normalize_sofascore_data save_match_data redis_client
     publish now source_id db =
     (case get_match_data source_id of
        None \<Rightarrow> ([], None, db)
      | Some raw_match_data \<Rightarrow>
          if raw_match_data = [] then ([], None, db)
          else
            (case getattr nm ''normalize_sofascore_data'' normalize_sofascore_data of
               Inl err \<Rightarrow> ([], Some err, db)
             | Inr normalize_method \<Rightarrow>
                 (case normalize_method raw_match_data of
                    None \<Rightarrow> ([], None, db)
                  | Some normalized_data \<Rightarrow>
                      if normalized_data = [] then ([], None, db)
                      else
                        (case getattr dm ''save_match_data'' save_match_data of
                           Inl err \<Rightarrow> ([], Some err, db)
                         | Inr save_method \<Rightarrow>
                             (case save_method normalized_data db of
                                (success, db') \<Rightarrow>
                                  if success
                                  then (if redis_client
                                        then (let message = build_message normalized_data now
                                              in if publish message then ([message], None, db')
                                                 else ([], Some ConnectionError, db'))
                                        else ([], None, db'))
                                  else ([], None, db'))))))"


text \<open>
  The \<open>for\<close> loop of lines 101--138 over the source ids of the active matches; an
  exception leaves the loop for the handler of the cycle.
\<close>

fun process_active_matches_in ::
  "string list \<Rightarrow> string list \<Rightarrow>
   (string \<Rightarrow> pydict option) \<Rightarrow> (pydict \<Rightarrow> pydict option) \<Rightarrow> (pydict \<Rightarrow> 'db \<Rightarrow> bool \<times> 'db) \<Rightarrow>
   bool \<Rightarrow> (pydict \<Rightarrow> bool) \<Rightarrow> int \<Rightarrow> string list \<Rightarrow> 'db \<Rightarrow> pydict list \<times> py_error option \<times> 'db" where
  "process_active_matches_in nm dm g n sv rc pb now [] db = ([], None, db)"
| "process_active_matches_in nm dm g n sv rc pb now (source_id # rest) db =
     (case process_match_in nm dm g n sv rc pb now source_id db of
        (published, Some err, db') \<Rightarrow> (published, Some err, db')
      | (published, None, db') \<Rightarrow>
          (case process_active_matches_in nm dm g n sv rc pb now rest db' of
             (later, err, db'') \<Rightarrow> (published @ later, err, db'')))"

text \<open>
  Lines 91--191, one turn of the scheduler loop. Line 93 reads
  \<open>data_access.get_upcoming_and_live_matches\<close>, whose result is the list of the
  \<open>(source_id, status)\<close> of the matches to poll. The handler of
  \<open>redis.exceptions.ConnectionError\<close> (lines 176--188) reconnects and sleeps 30 s when
  that fails (\<open>reconnect\<close> is whether it succeeds); the handler of every other
  exception (lines 189--191) sleeps 30 s. The result is the durations slept, the
  messages published, the exception handled if one was raised, and the database.
\<close>

definition scheduler_cycle_in ::
  "string list \<Rightarrow> string list \<Rightarrow>
   ('db \<Rightarrow> rat \<Rightarrow> (string \<times> string) list) \<Rightarrow> ('db \<Rightarrow> int option) \<Rightarrow>
   (string \<Rightarrow> pydict option) \<Rightarrow> (pydict \<Rightarrow> pydict option) \<Rightarrow> (pydict \<Rightarrow> 'db \<Rightarrow> bool \<times> 'db) \<Rightarrow>
   bool \<Rightarrow> (pydict \<Rightarrow> bool) \<Rightarrow> bool \<Rightarrow> (rat \<Rightarrow> rat) \<Rightarrow> rat \<Rightarrow> 'db \<Rightarrow>
   rat list \<times> pydict list \<times> py_error option \<times> 'db" where
  "scheduler_cycle_in nm dm get_upcoming_and_live_matches get_next_scheduled_match_start_time
     get_match_data normalize_sofascore_data save_match_data redis_client publish reconnect
     local_time now db =
     (case getattr dm ''get_upcoming_and_live_matches'' get_upcoming_and_live_matches of
        Inl err \<Rightarrow> ([30], [], Some err, db)
      | Inr query_method \<Rightarrow>
          let active_matches = query_method db MATCH_PROXIMITY_BUFFER_MINUTES in
          if active_matches \<noteq> [] then
            (case process_active_matches_in nm dm get_match_data normalize_sofascore_data
                    save_match_data redis_client publish \<lfloor>now\<rfloor> (map fst active_matches) db of
               (published, None, db') \<Rightarrow> ([ACTIVE_POLL_INTERVAL_SECONDS], published, None, db')
             | (published, Some err, db') \<Rightarrow>
                 if err = ConnectionError
                 then (if reconnect then [] else [30], published, Some err, db')
                 else ([30], published, Some err, db'))
          else
            (case hibernating_branch_in dm get_next_scheduled_match_start_time local_time now db of
               Inl err \<Rightarrow> ([30], [], Some err, db)
             | Inr wait_duration \<Rightarrow> ([wait_duration], [], None, db)))"

definition scheduler_cycle ::
  "('db \<Rightarrow> rat \<Rightarrow> (string \<times> string) list) \<Rightarrow> ('db \<Rightarrow> int option) \<Rightarrow>
   (string \<Rightarrow> pydict option) \<Rightarrow> (pydict \<Rightarrow> pydict option) \<Rightarrow> (pydict \<Rightarrow> 'db \<Rightarrow> bool \<times> 'db) \<Rightarrow>
   bool \<Rightarrow> (pydict \<Rightarrow> bool) \<Rightarrow> bool \<Rightarrow> (rat \<Rightarrow> rat) \<Rightarrow> rat \<Rightarrow> 'db \<Rightarrow>
   rat list \<times> pydict list \<times> py_error option \<times> 'db" where
  "scheduler_cycle = scheduler_cycle_in DataNormalizer_methods DataAccess_methods"

section \<open>The merge policy in the words of the specification\<close>

text \<open>
  The acceptance condition as the specification words it, to be compared with
  \<open>should_update\<close>: the incoming time stamp is later; or the two are equal, the match
  is live on either side, and the incoming game time is present and later than the
  stored one, a missing stored one counting as earlier than any.
\<close>

definition spec_accepts :: "normalized_event_data \<Rightarrow> int \<Rightarrow> int \<Rightarrow> Event \<Rightarrow> bool" where
  "spec_accepts d its stored target =
     (its > stored \<or>
      (its = stored \<and>
       (dict_get (k_event_status d) = Some ''inprogress'' \<or>
        event_status target = Some ''inprogress'') \<and>
       (\<exists>g. dict_get (k_current_game_time d) = Some g \<and>
            (\<forall>old. current_game_time target = Some old \<longrightarrow> old < g))))"


text \<open>
  The keys of two dictionaries: \<open>covers dB dA\<close> when \<open>dB\<close> has every key of a
  column of \<open>Event\<close> that \<open>dA\<close> has. The loop of lines 109--111 assigns the keys
  the dictionary has and leaves the other columns as they are.
\<close>

definition covers :: "normalized_event_data \<Rightarrow> normalized_event_data \<Rightarrow> bool" where
  "covers dB dA =
     ((k_event_name dA \<noteq> Absent \<longrightarrow> k_event_name dB \<noteq> Absent) \<and>
      (k_sport_name dA \<noteq> Absent \<longrightarrow> k_sport_name dB \<noteq> Absent) \<and>
      (k_event_status dA \<noteq> Absent \<longrightarrow> k_event_status dB \<noteq> Absent) \<and>
      (k_current_game_time dA \<noteq> Absent \<longrightarrow> k_current_game_time dB \<noteq> Absent) \<and>
      (k_home_team_name dA \<noteq> Absent \<longrightarrow> k_home_team_name dB \<noteq> Absent) \<and>
      (k_away_team_name dA \<noteq> Absent \<longrightarrow> k_away_team_name dB \<noteq> Absent) \<and>
      (k_home_score dA \<noteq> Absent \<longrightarrow> k_home_score dB \<noteq> Absent) \<and>
      (k_away_score dA \<noteq> Absent \<longrightarrow> k_away_score dB \<noteq> Absent) \<and>
      (k_league_name dA \<noteq> Absent \<longrightarrow> k_league_name dB \<noteq> Absent) \<and>
      (k_league_id dA \<noteq> Absent \<longrightarrow> k_league_id dB \<noteq> Absent) \<and>
      (k_event_timestamp dA \<noteq> Absent \<longrightarrow> k_event_timestamp dB \<noteq> Absent) \<and>
      (k_statistics dA \<noteq> Absent \<longrightarrow> k_statistics dB \<noteq> Absent))"


section \<open>Example inputs\<close>

text \<open>
  The record a normalizer builds for the match A v B: all fourteen keys, start instant
  \<open>t\<close>, league entry \<open>lg\<close>, produced at \<open>ts\<close> by the provider \<open>p\<close>, status
  \<open>st\<close> and game time \<open>g\<close>.
\<close>

definition ex_event ::
  "int \<Rightarrow> string entry \<Rightarrow> int \<Rightarrow> string \<Rightarrow> string \<Rightarrow> int entry \<Rightarrow> normalized_event_data" where
  "ex_event t lg ts p st g =
     \<lparr> k_event_name = Val ''A vs B'', k_sport_name = Val ''football'',
       k_event_status = Val st, k_current_game_time = g,
       k_home_team_name = Val ''A'', k_away_team_name = Val ''B'',
       k_home_score = Val 0, k_away_score = Val 0,
       k_league_name = PyNone, k_league_id = lg, k_event_timestamp = Val t,
       k_last_data_source = Val p, k_last_updated_timestamp = Val ts,
       k_statistics = Val [] \<rparr>"

definition ex_source :: "string \<Rightarrow> string \<Rightarrow> source_mapping_data" where
  "ex_source p i = \<lparr> k_source_name = Val p, k_source_event_id = Val i \<rparr>"

text \<open>The row of that match with primary key \<open>i\<close>, as the store holds it.\<close>

definition ex_row ::
  "nat \<Rightarrow> int \<Rightarrow> string option \<Rightarrow> int \<Rightarrow> string \<Rightarrow> string \<Rightarrow> int option \<Rightarrow> Event" where
  "ex_row i t lg ts p st g =
     \<lparr> ev_id = i, event_name = Some ''A vs B'', sport_name = Some ''football'',
       event_status = Some st, current_game_time = g,
       home_team_name = Some ''A'', away_team_name = Some ''B'',
       home_score = Some 0, away_score = Some 0,
       league_name = None, league_id = lg, event_timestamp = Some t,
       last_data_source = Some p, last_updated_timestamp = Some ts,
       statistics = Some [] \<rparr>"

definition ex_mapping :: "nat \<Rightarrow> nat \<Rightarrow> string \<Rightarrow> string \<Rightarrow> EventSourceMapping" where
  "ex_mapping i e p x = \<lparr> m_id = i, event_id = e, source_name = p, source_event_id = x \<rparr>"


section \<open>Properties of the token bucket\<close>

lemma wait_loop_enough:
  assumes "valid_bucket b" and "tokens (refill_tokens b now) \<ge> 1"
  shows "wait_loop b now slept =
     Some (Inr ((refill_tokens b now) \<lparr> tokens := tokens (refill_tokens b now) - 1 \<rparr>, now, slept))"
  using assms by (subst wait_loop.simps) (simp add: Let_def)

lemma refill_valid: "valid_bucket b \<Longrightarrow> valid_bucket (refill_tokens b now)"
  by (simp add: valid_bucket_def refill_tokens_def Let_def)

text \<open>
  After sleeping for the deficit plus the margin, the refill brings the bucket to at
  least one token: the capacity is an integer above 0, so the cap is at least 1.
\<close>

lemma refill_after_sleep:
  assumes "valid_bucket b1" and "tokens b1 < 1" and "last_refill_time b1 = now"
  shows "tokens (refill_tokens b1 (now + ((1 - tokens b1) / fill_rate b1 + SLEEP_MARGIN))) \<ge> 1"
proof -
  have r: "0 < fill_rate b1" and c: "1 \<le> capacity b1"
    using assms(1) by (auto simp: valid_bucket_def)
  have "((1 - tokens b1) / fill_rate b1 + SLEEP_MARGIN) * fill_rate b1
          = (1 - tokens b1) + SLEEP_MARGIN * fill_rate b1"
    using r by (simp add: field_simps)
  moreover have "0 \<le> SLEEP_MARGIN * fill_rate b1"
    using r by (simp add: SLEEP_MARGIN_def)
  moreover have "(1::rat) \<le> of_int (capacity b1)" using c by simp
  ultimately show ?thesis
    using assms(3) by (simp add: refill_tokens_def Let_def)
qed

lemma wait_before_request_general:
  assumes "valid_bucket b"
  shows "(let b1 = refill_tokens b now in
           tokens b1 = min (of_int (capacity b)) (tokens b + (now - last_refill_time b) * fill_rate b) \<and>
           last_refill_time b1 = now \<and>
           (1 \<le> tokens b1 \<longrightarrow>
              wait_before_request b now = Some (Inr (b1 \<lparr> tokens := tokens b1 - 1 \<rparr>, now, []))) \<and>
           (tokens b1 < 1 \<longrightarrow>
              (let d = (1 - tokens b1) / fill_rate b + SLEEP_MARGIN;
                   b2 = refill_tokens b1 (now + d)
               in 0 < d \<and> 1 \<le> tokens b2 \<and>
                  wait_before_request b now =
                    Some (Inr (b2 \<lparr> tokens := tokens b2 - 1 \<rparr>, now + d, [d])))))"
proof -
  define b1 where "b1 = refill_tokens b now"
  have v1: "valid_bucket b1" using assms by (simp add: b1_def refill_valid)
  have r: "fill_rate b1 = fill_rate b" "0 < fill_rate b" "last_refill_time b1 = now"
    using assms by (simp_all add: b1_def refill_tokens_def Let_def valid_bucket_def)
  have A: "tokens b1 = min (of_int (capacity b)) (tokens b + (now - last_refill_time b) * fill_rate b)"
    by (simp add: b1_def refill_tokens_def Let_def)
  have B: "1 \<le> tokens b1 \<Longrightarrow>
      wait_before_request b now = Some (Inr (b1 \<lparr> tokens := tokens b1 - 1 \<rparr>, now, []))"
    unfolding wait_before_request_def b1_def using assms by (rule wait_loop_enough)
  have C: "0 < (1 - tokens b1) / fill_rate b + SLEEP_MARGIN \<and>
           1 \<le> tokens (refill_tokens b1 (now + ((1 - tokens b1) / fill_rate b + SLEEP_MARGIN))) \<and>
           wait_before_request b now =
             Some (Inr ((refill_tokens b1 (now + ((1 - tokens b1) / fill_rate b + SLEEP_MARGIN)))
                     \<lparr> tokens := tokens (refill_tokens b1 (now + ((1 - tokens b1) / fill_rate b + SLEEP_MARGIN))) - 1 \<rparr>,
                   now + ((1 - tokens b1) / fill_rate b + SLEEP_MARGIN),
                   [(1 - tokens b1) / fill_rate b + SLEEP_MARGIN]))"
    if lt: "tokens b1 < 1"
  proof -
    let ?d = "(1 - tokens b1) / fill_rate b + SLEEP_MARGIN"
    have pos: "0 < ?d"
    proof -
      have "0 < (1 - tokens b1) / fill_rate b" using lt r(2) by simp
      then show ?thesis by (simp add: SLEEP_MARGIN_def)
    qed
    have ge: "1 \<le> tokens (refill_tokens b1 (now + ?d))"
      using refill_after_sleep [OF v1 lt r(3)] by (simp add: r(1))
    have step: "wait_loop b now [] = wait_loop b1 (now + ?d) ([] @ [?d])"
      using lt r pos by (subst wait_loop.simps) (simp add: Let_def b1_def [symmetric])
    have "wait_loop b1 (now + ?d) ([] @ [?d]) =
            Some (Inr ((refill_tokens b1 (now + ?d))
                    \<lparr> tokens := tokens (refill_tokens b1 (now + ?d)) - 1 \<rparr>, now + ?d, [] @ [?d]))"
      using v1 ge by (rule wait_loop_enough)
    with step pos ge show ?thesis by (simp add: wait_before_request_def)
  qed
  show ?thesis
    unfolding Let_def b1_def [symmetric] using A B C r(3) by blast
qed

lemma scenario_five_then_wait:
  "init_bucket 5 1 None 0 = Inr \<lparr> capacity = 5, fill_rate = 1, tokens = 5, last_refill_time = 0 \<rparr> \<and>
   wait_before_request \<lparr> capacity = 5, fill_rate = 1, tokens = 5, last_refill_time = 0 \<rparr> 0
     = Some (Inr (\<lparr> capacity = 5, fill_rate = 1, tokens = 4, last_refill_time = 0 \<rparr>, 0, [])) \<and>
   wait_before_request \<lparr> capacity = 5, fill_rate = 1, tokens = 4, last_refill_time = 0 \<rparr> 0
     = Some (Inr (\<lparr> capacity = 5, fill_rate = 1, tokens = 3, last_refill_time = 0 \<rparr>, 0, [])) \<and>
   wait_before_request \<lparr> capacity = 5, fill_rate = 1, tokens = 3, last_refill_time = 0 \<rparr> 0
     = Some (Inr (\<lparr> capacity = 5, fill_rate = 1, tokens = 2, last_refill_time = 0 \<rparr>, 0, [])) \<and>
   wait_before_request \<lparr> capacity = 5, fill_rate = 1, tokens = 2, last_refill_time = 0 \<rparr> 0
     = Some (Inr (\<lparr> capacity = 5, fill_rate = 1, tokens = 1, last_refill_time = 0 \<rparr>, 0, [])) \<and>
   wait_before_request \<lparr> capacity = 5, fill_rate = 1, tokens = 1, last_refill_time = 0 \<rparr> 0
     = Some (Inr (\<lparr> capacity = 5, fill_rate = 1, tokens = 0, last_refill_time = 0 \<rparr>, 0, [])) \<and>
   wait_before_request \<lparr> capacity = 5, fill_rate = 1, tokens = 0, last_refill_time = 0 \<rparr> 0
     = Some (Inr (\<lparr> capacity = 5, fill_rate = 1, tokens = 1 / 100, last_refill_time = 101 / 100 \<rparr>,
                  101 / 100, [101 / 100]))"
  by (simp add: init_bucket_def wait_before_request_def wait_loop.simps refill_tokens_def
        SLEEP_MARGIN_def Let_def)

text \<open>
  Claim C5. Every call of \<open>wait_before_request\<close> on a bucket built by the constructor
  first refills to \<open>min capacity (tokens + elapsed * fill_rate)\<close> and advances
  \<open>last_refill_time\<close>. With at least one token it deducts exactly one and returns
  without sleeping. Otherwise it sleeps \<open>(1 - tokens) / fill_rate\<close> plus the margin of
  0.01 s and retries, and the retry succeeds: the call returns after that one sleep.
  With capacity 5, one token per second and a full bucket, five immediate calls return
  without sleeping and the sixth sleeps 1.01 s.
\<close>

theorem wait_before_request_spec:
  assumes "valid_bucket b"
  shows "(let b1 = refill_tokens b now in
           tokens b1 = min (of_int (capacity b)) (tokens b + (now - last_refill_time b) * fill_rate b) \<and>
           last_refill_time b1 = now \<and>
           (1 \<le> tokens b1 \<longrightarrow>
              wait_before_request b now = Some (Inr (b1 \<lparr> tokens := tokens b1 - 1 \<rparr>, now, []))) \<and>
           (tokens b1 < 1 \<longrightarrow>
              (let d = (1 - tokens b1) / fill_rate b + SLEEP_MARGIN;
                   b2 = refill_tokens b1 (now + d)
               in 0 < d \<and> 1 \<le> tokens b2 \<and>
                  wait_before_request b now =
                    Some (Inr (b2 \<lparr> tokens := tokens b2 - 1 \<rparr>, now + d, [d]))))) \<and>
         (init_bucket 5 1 None 0 = Inr \<lparr> capacity = 5, fill_rate = 1, tokens = 5, last_refill_time = 0 \<rparr> \<and>
          wait_before_request \<lparr> capacity = 5, fill_rate = 1, tokens = 5, last_refill_time = 0 \<rparr> 0
            = Some (Inr (\<lparr> capacity = 5, fill_rate = 1, tokens = 4, last_refill_time = 0 \<rparr>, 0, [])) \<and>
          wait_before_request \<lparr> capacity = 5, fill_rate = 1, tokens = 4, last_refill_time = 0 \<rparr> 0
            = Some (Inr (\<lparr> capacity = 5, fill_rate = 1, tokens = 3, last_refill_time = 0 \<rparr>, 0, [])) \<and>
          wait_before_request \<lparr> capacity = 5, fill_rate = 1, tokens = 3, last_refill_time = 0 \<rparr> 0
            = Some (Inr (\<lparr> capacity = 5, fill_rate = 1, tokens = 2, last_refill_time = 0 \<rparr>, 0, [])) \<and>
          wait_before_request \<lparr> capacity = 5, fill_rate = 1, tokens = 2, last_refill_time = 0 \<rparr> 0
            = Some (Inr (\<lparr> capacity = 5, fill_rate = 1, tokens = 1, last_refill_time = 0 \<rparr>, 0, [])) \<and>
          wait_before_request \<lparr> capacity = 5, fill_rate = 1, tokens = 1, last_refill_time = 0 \<rparr> 0
            = Some (Inr (\<lparr> capacity = 5, fill_rate = 1, tokens = 0, last_refill_time = 0 \<rparr>, 0, [])) \<and>
          wait_before_request \<lparr> capacity = 5, fill_rate = 1, tokens = 0, last_refill_time = 0 \<rparr> 0
            = Some (Inr (\<lparr> capacity = 5, fill_rate = 1, tokens = 1 / 100, last_refill_time = 101 / 100 \<rparr>,
                         101 / 100, [101 / 100])))"
  using wait_before_request_general [OF assms, of now] scenario_five_then_wait by blast

theorem wait_before_request_spec_witness:
  "valid_bucket \<lparr> capacity = 2, fill_rate = 1 / 2, tokens = 0, last_refill_time = 0 \<rparr> \<and>
   wait_before_request \<lparr> capacity = 2, fill_rate = 1 / 2, tokens = 0, last_refill_time = 0 \<rparr> 0
     = Some (Inr (\<lparr> capacity = 2, fill_rate = 1 / 2, tokens = 1 / 200, last_refill_time = 201 / 100 \<rparr>,
                  201 / 100, [201 / 100])) \<and>
   wait_before_request \<lparr> capacity = 2, fill_rate = 1 / 2, tokens = 1, last_refill_time = 0 \<rparr> 4
     = Some (Inr (\<lparr> capacity = 2, fill_rate = 1 / 2, tokens = 1, last_refill_time = 4 \<rparr>, 4, []))"
proof -
  have v: "valid_bucket \<lparr> capacity = 2, fill_rate = 1 / 2, tokens = t, last_refill_time = 0 \<rparr>" for t
    by (simp add: valid_bucket_def)
  show ?thesis
    using v [of 0] wait_before_request_spec [OF v [of 0], of 0]
      wait_before_request_spec [OF v [of 1], of 4]
    by (simp add: Let_def refill_tokens_def SLEEP_MARGIN_def)
qed

text \<open>
  Claim C10. The constructor raises \<open>ValueError\<close> exactly when \<open>capacity \<le> 0\<close> or
  \<open>fill_rate \<le> 0\<close>. Otherwise it returns a bucket whose tokens are \<open>initial_tokens\<close>
  when one is given, also above the capacity, and the capacity when none is; the first
  refill clamps the tokens to the capacity.
\<close>

theorem init_bucket_spec:
  "(init_bucket cap rate it now = Inl ValueError \<longleftrightarrow> cap \<le> 0 \<or> rate \<le> 0) \<and>
   (\<not> (cap \<le> 0 \<or> rate \<le> 0) \<longrightarrow>
      (\<exists>b. init_bucket cap rate it now = Inr b \<and> capacity b = cap \<and> fill_rate b = rate \<and>
           last_refill_time b = now \<and>
           tokens b = (case it of Some t \<Rightarrow> of_int t | None \<Rightarrow> of_int cap) \<and>
           (\<forall>now'. tokens (refill_tokens b now') =
                    min (of_int cap) (tokens b + (now' - now) * rate))))"
  by (simp add: init_bucket_def refill_tokens_def)

theorem init_bucket_spec_witness:
  "init_bucket 0 1 None 0 = Inl ValueError \<and> init_bucket 5 0 None 0 = Inl ValueError \<and>
   (\<exists>b. init_bucket 5 1 (Some 9) 0 = Inr b \<and> tokens b = 9 \<and> capacity b = 5 \<and>
        tokens (refill_tokens b 0) = 5) \<and>
   (\<exists>b. init_bucket 5 1 None 0 = Inr b \<and> tokens b = 5)"
  using init_bucket_spec [of 0 1 None 0] init_bucket_spec [of 5 0 None 0]
    init_bucket_spec [of 5 1 "Some 9" 0] init_bucket_spec [of 5 1 None 0]
  by auto

section \<open>Properties of the hibernating branch\<close>

lemma session_loop_not_Some:
  assumes "session_loop n = Some u"
  shows False
  by (rule session_loop.raw_induct [where P = "\<lambda>turns u. False", OF _ assms]) blast

lemma session_loop_never_left: "session_loop n = None"
  using session_loop_not_Some [of n] by (cases "session_loop n") auto

text \<open>
  What lines 150--174 compute from the value of the query, with the offset of the
  local calendar the same at the two instants and the clock after the epoch: the
  minimum of the time to \<open>wake_at\<close> and the hibernation interval when \<open>wake_at\<close> is
  ahead, the hibernation interval otherwise, never zero or negative.
\<close>

lemma hibernation_wait_arithmetic:
  assumes "0 \<le> now" and "\<And>t. local_time t = t + offset"
  shows "(let wake_at = of_int T - MATCH_PROXIMITY_BUFFER_MINUTES * 60 in
            (now < wake_at \<longrightarrow>
               hibernation_wait local_time (Some T) now
                 = min (wake_at - now) HIBERNATION_POLL_INTERVAL_SECONDS) \<and>
            (wake_at \<le> now \<longrightarrow>
               hibernation_wait local_time (Some T) now = HIBERNATION_POLL_INTERVAL_SECONDS)) \<and>
         hibernation_wait local_time None now = HIBERNATION_POLL_INTERVAL_SECONDS \<and>
         0 < hibernation_wait local_time next_start now"
proof -
  have nz: "T \<noteq> 0" if "now < of_int T - MATCH_PROXIMITY_BUFFER_MINUTES * 60"
    using that assms(1) by (auto simp: MATCH_PROXIMITY_BUFFER_MINUTES_def)
  have pos: "0 < hibernation_wait local_time next_start now"
    by (auto simp: hibernation_wait_def HIBERNATION_POLL_INTERVAL_SECONDS_def Let_def
          split: option.splits)
  show ?thesis
    using nz pos
    by (auto simp: hibernation_wait_def Let_def HIBERNATION_POLL_INTERVAL_SECONDS_def
          MATCH_PROXIMITY_BUFFER_MINUTES_def assms(2))
qed

text \<open>
  Claim C6 at a failing input: the next scheduled match starts at 3000, the clock
  reads 1000, the local calendar is UTC, so \<open>wake_at\<close> = 1200 is ahead and the claimed
  sleep is \<open>min (1200 - 1000) 300\<close> = 200 s. The first loop of
  \<open>monitor_live_matches\<close> is never left, so the scheduler loop does not run. Taken by
  itself, the hibernating branch raises \<open>AttributeError\<close> on line 148, since
  \<open>DataAccess\<close> defines \<open>get_next_scheduled_event_start_time\<close> and not
  \<open>get_next_scheduled_match_start_time\<close>, and a turn of the scheduler loop raises it
  already on line 93 and sleeps 30 s. With the method under the name line 148 reads,
  the branch gives the 200 s.
\<close>

theorem hibernating_branch_raises:
  "session_loop 0 = None \<and>
   hibernating_branch (\<lambda>db. Some 3000) (\<lambda>t. t) 1000 () = Inl AttributeError \<and>
   scheduler_cycle (\<lambda>db buffer. []) (\<lambda>db. Some 3000) (\<lambda>sid. None) (\<lambda>raw. None)
     (\<lambda>nd db. (False, db)) True (\<lambda>msg. True) True (\<lambda>t. t) 1000 ()
     = ([30], [], Some AttributeError, ()) \<and>
   hibernating_branch_in (''get_next_scheduled_match_start_time'' # DataAccess_methods)
     (\<lambda>db. Some 3000) (\<lambda>t. t) 1000 () = Inr 200"
  by (simp add: session_loop_never_left hibernating_branch_def hibernating_branch_in_def
        scheduler_cycle_def scheduler_cycle_in_def getattr_def DataAccess_methods_def
        bind_err_def hibernation_wait_def Let_def MATCH_PROXIMITY_BUFFER_MINUTES_def
        HIBERNATION_POLL_INTERVAL_SECONDS_def)

section \<open>Properties of the canonical store\<close>

lemmas ex_defs = ex_event_def ex_source_def ex_row_def ex_mapping_def empty_store_def

lemmas upsert_defs = save_or_update_event_def save_or_update_event_raced_def
  save_or_update_event_on_def validate_def attempt_def
  resolve_target_def find_mapping_def mapping_event_def find_event_by_attributes_def
  key_matches_def
  should_update_def apply_update_def Event_init_def bind_err_def commit_def
  insert_event_def insert_values_def update_event_def insert_mapping_def fresh_id_def
  not_null_ok_def uq_event_canonical_violated_def uq_source_event_violated_def
  uq_event_id_source_violated_def dedup_key_def Let_def

subsection \<open>The guard of line 54\<close>

lemma truthy_str_None: "truthy_str x = None \<longleftrightarrow> (\<forall>v. x = Val v \<longrightarrow> v = [])"
  by (cases x) auto

lemma truthy_int_None: "truthy_int x = None \<longleftrightarrow> (\<forall>v. x = Val v \<longrightarrow> v = 0)"
  by (cases x) auto

lemma truthy_datetime_None: "truthy_datetime x = None \<longleftrightarrow> (\<forall>v. x \<noteq> Val v)"
  by (cases x) auto

lemma validate_None_iff:
  "validate d m = None \<longleftrightarrow>
     (truthy_datetime (k_event_timestamp d) = None \<or> truthy_str (k_home_team_name d) = None \<or>
      truthy_str (k_away_team_name d) = None \<or> truthy_str (k_source_name m) = None \<or>
      truthy_str (k_source_event_id m) = None \<or> truthy_int (k_last_updated_timestamp d) = None)"
  by (auto simp: validate_def Option.bind_eq_None_conv)

lemma save_ValidationFailed_iff:
  "fst (save_or_update_event s d m) = ValidationFailed \<longleftrightarrow> validate d m = None"
  by (auto simp: save_or_update_event_def save_or_update_event_on_def
        split: option.splits sum.splits prod.splits)

text \<open>
  Claim C8, as amended. \<open>save_or_update_event\<close> returns \<open>None\<close> at the guard, leaving
  the database as it was, exactly when one of the six values the guard tests is
  missing, \<open>None\<close> or false for Python: the start instant, the home team name, the
  away team name, the provider name, the provider's event id, the time stamp of the
  data (an empty string and a time stamp 0 are false). The event name and the sport
  are not tested.
\<close>

theorem validation_guard:
  "(fst (save_or_update_event s d m) = ValidationFailed \<longleftrightarrow>
      ((\<forall>t. k_event_timestamp d \<noteq> Val t) \<or>
       (\<forall>v. k_home_team_name d = Val v \<longrightarrow> v = []) \<or>
       (\<forall>v. k_away_team_name d = Val v \<longrightarrow> v = []) \<or>
       (\<forall>v. k_source_name m = Val v \<longrightarrow> v = []) \<or>
       (\<forall>v. k_source_event_id m = Val v \<longrightarrow> v = []) \<or>
       (\<forall>v. k_last_updated_timestamp d = Val v \<longrightarrow> v = 0))) \<and>
   (fst (save_or_update_event s d m) = ValidationFailed \<longrightarrow>
      save_or_update_event s d m = (ValidationFailed, s) \<and>
      returned (fst (save_or_update_event s d m)) = None)"
proof -
  have "fst (save_or_update_event s d m) = ValidationFailed \<Longrightarrow>
          save_or_update_event s d m = (ValidationFailed, s)"
    by (auto simp: save_or_update_event_def save_or_update_event_on_def
          split: option.splits sum.splits prod.splits if_splits)
  then show ?thesis
    unfolding save_ValidationFailed_iff validate_None_iff truthy_str_None truthy_int_None
      truthy_datetime_None
    by auto
qed

theorem validation_guard_witness:
  "fst (save_or_update_event empty_store
          ((ex_event 1000 (Val ''10'') 100 ''p'' ''scheduled'' PyNone)
             \<lparr> k_home_team_name := Val [] \<rparr>)
          (ex_source ''p'' ''1'')) = ValidationFailed \<and>
   save_or_update_event empty_store
     ((ex_event 1000 (Val ''10'') 100 ''p'' ''scheduled'' PyNone) \<lparr> k_home_team_name := Val [] \<rparr>)
     (ex_source ''p'' ''1'') = (ValidationFailed, empty_store)"
  using validation_guard [of empty_store
      "(ex_event 1000 (Val ''10'') 100 ''p'' ''scheduled'' PyNone) \<lparr> k_home_team_name := Val [] \<rparr>"
      "ex_source ''p'' ''1''"]
  by (simp add: ex_event_def)

text \<open>
  Claim C8 as stated fails in both directions. A record with the event name, the
  sport, both team names and the start instant, and a provider pair, is refused at the
  guard when it has no \<open>last_updated_timestamp\<close>; and a record without event name and
  sport passes the guard and is merged into the stored event.
\<close>

theorem validation_counterexample:
  "save_or_update_event empty_store
     ((ex_event 1000 (Val ''10'') 100 ''p'' ''scheduled'' PyNone) \<lparr> k_last_updated_timestamp := Absent \<rparr>)
     (ex_source ''p'' ''1'') = (ValidationFailed, empty_store) \<and>
   save_or_update_event
     \<lparr> events = [ex_row 1 1000 (Some ''10'') 100 ''p'' ''scheduled'' None],
       mappings = [ex_mapping 1 1 ''p'' ''1''] \<rparr>
     ((ex_event 1000 (Val ''10'') 200 ''p'' ''scheduled'' PyNone)
        \<lparr> k_event_name := Absent, k_sport_name := Absent \<rparr>)
     (ex_source ''p'' ''1'')
   = (Persisted (ex_row 1 1000 (Some ''10'') 200 ''p'' ''scheduled'' None),
      \<lparr> events = [ex_row 1 1000 (Some ''10'') 200 ''p'' ''scheduled'' None],
        mappings = [ex_mapping 1 1 ''p'' ''1''] \<rparr>)"
  by (simp add: upsert_defs ex_defs)

subsection \<open>The merge decision\<close>

lemma should_update_eq:
  assumes "last_updated_timestamp target = Some stored"
  shows "should_update d its target =
     Inr (spec_accepts d its stored target)"
  using assms by (auto simp: should_update_def spec_accepts_def split: option.splits)

lemma resolve_target_in_events:
  assumes "resolve_target s a = Inr (mp, Some target)"
  shows "target \<in> set (events s)"
  using assms
  by (auto simp: resolve_target_def mapping_event_def find_event_by_attributes_def
        find_Some_iff in_set_conv_nth split: option.splits)

lemma resolve_target_by_key:
  assumes "resolve_target s a = Inr (None, found)"
  shows "find_event_by_attributes s a = found"
  using assms by (auto simp: resolve_target_def split: option.splits)

lemma ev_id_apply_update [simp]: "ev_id (apply_update d sn its e) = ev_id e"
  by (simp add: apply_update_def)

lemma insert_mapping_cases:
  "insert_mapping db eid sn sid = Inl IntegrityError \<or>
   (\<exists>db'. insert_mapping db eid sn sid = Inr db' \<and> events db' = events db)"
  by (auto simp: insert_mapping_def Let_def)

lemma update_event_cases:
  assumes "e0 \<in> set (events db)" and "ev_id e0 = ev_id e"
  shows "update_event db e = Inl IntegrityError \<or>
         (update_event db e =
            Inr (db \<lparr> events := map (\<lambda>r. if ev_id r = ev_id e then e else r) (events db) \<rparr>) \<and>
          (\<forall>r\<in>set (events db). ev_id r \<noteq> ev_id e \<longrightarrow> \<not> uq_event_canonical_violated e r))"
  using assms by (auto simp: update_event_def list_ex_iff)

lemma save_existing:
  assumes v: "validate d m = Some a"
    and r: "resolve_target s a = Inr (mp, Some target)"
    and t: "last_updated_timestamp target = Some stored"
  shows "save_or_update_event s d m =
     (let upd = spec_accepts d (a_incoming_last_updated_timestamp a) stored target;
          e = (if upd then apply_update d (a_source_name a) (a_incoming_last_updated_timestamp a) target
               else target)
      in case commit s (if upd then Some e else None) (mp = None) (ev_id target) a of
           Inr s' \<Rightarrow> (Persisted e, s')
         | Inl err \<Rightarrow>
             if err = IntegrityError
             then (case find_event_by_attributes s a of
                     Some x \<Rightarrow> (ConflictResolved x, s) | None \<Rightarrow> (ConflictUnresolved, s))
             else (UnexpectedError err, s))"
  unfolding save_or_update_event_def save_or_update_event_on_def attempt_def
  by (simp add: v r should_update_eq [OF t] bind_err_def Let_def
        split: sum.splits)

lemma commit_no_change:
  "commit s None new eid a = Inl IntegrityError \<or>
   (\<exists>s'. commit s None new eid a = Inr s' \<and> events s' = events s)"
  using insert_mapping_cases [of s eid "a_source_name a" "a_source_event_id a"]
  by (auto simp: commit_def bind_err_def)

lemma commit_change:
  assumes "e0 \<in> set (events s)" and "ev_id e0 = ev_id e"
  shows "commit s (Some e) new eid a = Inl IntegrityError \<or>
   (\<exists>s'. commit s (Some e) new eid a = Inr s' \<and>
         events s' = map (\<lambda>r. if ev_id r = ev_id e then e else r) (events s) \<and>
         (\<forall>r\<in>set (events s). ev_id r \<noteq> ev_id e \<longrightarrow> \<not> uq_event_canonical_violated e r))"
proof -
  let ?s1 = "s \<lparr> events := map (\<lambda>r. if ev_id r = ev_id e then e else r) (events s) \<rparr>"
  from update_event_cases [OF assms]
  show ?thesis
  proof
    assume "update_event s e = Inl IntegrityError"
    then show ?thesis by (simp add: commit_def bind_err_def)
  next
    assume "update_event s e = Inr ?s1 \<and>
      (\<forall>r\<in>set (events s). ev_id r \<noteq> ev_id e \<longrightarrow> \<not> uq_event_canonical_violated e r)"
    then have u: "update_event s e = Inr ?s1"
      and q: "\<forall>r\<in>set (events s). ev_id r \<noteq> ev_id e \<longrightarrow> \<not> uq_event_canonical_violated e r"
      by simp_all
    show ?thesis
      using insert_mapping_cases [of ?s1 eid "a_source_name a" "a_source_event_id a"] q
      by (auto simp: commit_def bind_err_def u)
  qed
qed

text \<open>
  Claim C1, as amended. When the merge target exists (found by the mapping or by the
  attributes) and carries a time stamp, the incoming observation is accepted exactly
  when its time stamp is later, or equal with the match live on either side and the
  incoming game time present and later than the stored one (a missing stored one
  counting as earlier). An accepted observation overwrites the target when the
  transaction commits; when the commit raises, the transaction is rolled back and the
  database is as before. An observation that is not accepted leaves every event
  untouched, and the call returns the target, not \<open>None\<close>.
\<close>

theorem merge_acceptance_policy:
  assumes v: "validate d m = Some a"
    and r: "resolve_target s a = Inr (mp, Some target)"
    and t: "last_updated_timestamp target = Some stored"
  shows "(let its = a_incoming_last_updated_timestamp a;
              accept =
                (its > stored \<or>
                 (its = stored \<and>
                  (dict_get (k_event_status d) = Some ''inprogress'' \<or>
                   event_status target = Some ''inprogress'') \<and>
                  (\<exists>g. dict_get (k_current_game_time d) = Some g \<and>
                       (\<forall>old. current_game_time target = Some old \<longrightarrow> old < g))));
              merged = apply_update d (a_source_name a) its target;
              result = save_or_update_event s d m
          in (accept \<longrightarrow>
                ((\<exists>s'. commit s (Some merged) (mp = None) (ev_id target) a = Inr s') \<longrightarrow>
                   fst result = Persisted merged \<and>
                   events (snd result) =
                     map (\<lambda>r. if ev_id r = ev_id target then merged else r) (events s)) \<and>
                ((\<exists>err. commit s (Some merged) (mp = None) (ev_id target) a = Inl err) \<longrightarrow>
                   snd result = s)) \<and>
             (\<not> accept \<longrightarrow> events (snd result) = events s \<and> returned (fst result) = Some target))"
proof -
  let ?its = "a_incoming_last_updated_timestamp a"
  let ?merged = "apply_update d (a_source_name a) ?its target"
  note S = save_existing [OF v r t]
  have tin: "target \<in> set (events s)" by (rule resolve_target_in_events [OF r])
  have A1: "fst (save_or_update_event s d m) = Persisted ?merged \<and>
            events (snd (save_or_update_event s d m)) =
              map (\<lambda>r. if ev_id r = ev_id target then ?merged else r) (events s)"
    if acc: "spec_accepts d ?its stored target"
      and ok: "commit s (Some ?merged) (mp = None) (ev_id target) a = Inr s'" for s'
    using commit_change [OF tin, of ?merged "mp = None" "ev_id target" a] ok
    by (auto simp: S acc Let_def)
  have A2: "snd (save_or_update_event s d m) = s"
    if acc: "spec_accepts d ?its stored target"
      and bad: "commit s (Some ?merged) (mp = None) (ev_id target) a = Inl err" for err
    using bad by (auto simp: S acc Let_def split: option.splits)
  have B: "events (snd (save_or_update_event s d m)) = events s \<and>
           returned (fst (save_or_update_event s d m)) = Some target"
    if nacc: "\<not> spec_accepts d ?its stored target"
  proof -
    from commit_no_change [of s "mp = None" "ev_id target" a]
    show ?thesis
    proof
      assume c: "commit s None (mp = None) (ev_id target) a = Inl IntegrityError"
      have "mp = None"
      proof (rule ccontr)
        assume "mp \<noteq> None"
        then show False using c by (auto simp: commit_def bind_err_def)
      qed
      then have "find_event_by_attributes s a = Some target"
        using r resolve_target_by_key by blast
      then show ?thesis by (simp add: S nacc Let_def c)
    next
      assume "\<exists>s'. commit s None (mp = None) (ev_id target) a = Inr s' \<and> events s' = events s"
      then show ?thesis by (auto simp: S nacc Let_def)
    qed
  qed
  show ?thesis
    unfolding Let_def spec_accepts_def [symmetric] using A1 A2 B by blast
qed

theorem merge_acceptance_policy_witness:
  "validate (ex_event 1000 (Val ''10'') 200 ''p'' ''scheduled'' PyNone) (ex_source ''p'' ''1'')
     = Some \<lparr> a_event_timestamp = 1000, a_home_team_name = ''A'', a_away_team_name = ''B'',
              a_league_id = Some ''10'', a_incoming_last_updated_timestamp = 200,
              a_source_name = ''p'', a_source_event_id = ''1'' \<rparr> \<and>
   save_or_update_event
     \<lparr> events = [ex_row 1 1000 (Some ''10'') 100 ''p'' ''scheduled'' None],
       mappings = [ex_mapping 1 1 ''p'' ''1''] \<rparr>
     (ex_event 1000 (Val ''10'') 200 ''p'' ''scheduled'' PyNone) (ex_source ''p'' ''1'')
   = (Persisted (ex_row 1 1000 (Some ''10'') 200 ''p'' ''scheduled'' None),
      \<lparr> events = [ex_row 1 1000 (Some ''10'') 200 ''p'' ''scheduled'' None],
        mappings = [ex_mapping 1 1 ''p'' ''1''] \<rparr>)"
proof -
  let ?s = "\<lparr> events = [ex_row 1 1000 (Some ''10'') 100 ''p'' ''scheduled'' None],
              mappings = [ex_mapping 1 1 ''p'' ''1''] \<rparr>"
  let ?d = "ex_event 1000 (Val ''10'') 200 ''p'' ''scheduled'' PyNone"
  let ?a = "\<lparr> a_event_timestamp = 1000, a_home_team_name = ''A'', a_away_team_name = ''B'',
              a_league_id = Some ''10'', a_incoming_last_updated_timestamp = 200,
              a_source_name = ''p'', a_source_event_id = ''1'' \<rparr>"
  have v: "validate ?d (ex_source ''p'' ''1'') = Some ?a"
    by (simp add: validate_def ex_defs)
  have r: "resolve_target ?s ?a
             = Inr (Some (ex_mapping 1 1 ''p'' ''1''),
                    Some (ex_row 1 1000 (Some ''10'') 100 ''p'' ''scheduled'' None))"
    by (simp add: resolve_target_def find_mapping_def mapping_event_def ex_defs)
  have t: "last_updated_timestamp (ex_row 1 1000 (Some ''10'') 100 ''p'' ''scheduled'' None)
             = Some 100"
    by (simp add: ex_row_def)
  show ?thesis
    using v merge_acceptance_policy [OF v r t]
    by (simp add: upsert_defs ex_defs)
qed

text \<open>
  Claim C1 as stated fails: the target exists, the incoming time stamp 200 is later
  than the stored 100, and the target is left untouched. The same provider reports the
  stored match under a second id; the new mapping violates \<open>uq_event_id_source\<close>, the
  commit raises, and the rollback undoes the overwrite.
\<close>

theorem merge_acceptance_counterexample:
  "resolve_target
     \<lparr> events = [ex_row 1 1000 (Some ''10'') 100 ''p'' ''scheduled'' None],
       mappings = [ex_mapping 1 1 ''p'' ''1''] \<rparr>
     \<lparr> a_event_timestamp = 1000, a_home_team_name = ''A'', a_away_team_name = ''B'',
       a_league_id = Some ''10'', a_incoming_last_updated_timestamp = 200,
       a_source_name = ''p'', a_source_event_id = ''2'' \<rparr>
     = Inr (None, Some (ex_row 1 1000 (Some ''10'') 100 ''p'' ''scheduled'' None)) \<and>
   save_or_update_event
     \<lparr> events = [ex_row 1 1000 (Some ''10'') 100 ''p'' ''scheduled'' None],
       mappings = [ex_mapping 1 1 ''p'' ''1''] \<rparr>
     (ex_event 1000 (Val ''10'') 200 ''p'' ''scheduled'' PyNone) (ex_source ''p'' ''2'')
   = (ConflictResolved (ex_row 1 1000 (Some ''10'') 100 ''p'' ''scheduled'' None),
      \<lparr> events = [ex_row 1 1000 (Some ''10'') 100 ''p'' ''scheduled'' None],
        mappings = [ex_mapping 1 1 ''p'' ''1''] \<rparr>)"
  by (simp add: upsert_defs ex_defs)

subsection \<open>Rows written by one call\<close>

lemma assign_dict_get [simp]: "assign x (dict_get x) = dict_get x"
  by (cases x) auto

lemma assign_idem [simp]: "assign x (assign x old) = assign x old"
  by (cases x) auto

lemma apply_update_idem:
  "apply_update d sn its (apply_update d sn its e) = apply_update d sn its e"
  by (simp add: apply_update_def)

lemma last_updated_apply_update [simp]:
  "last_updated_timestamp (apply_update d sn its e) = Some its"
  by (simp add: apply_update_def)

lemma validate_timestamp:
  assumes "validate d m = Some a"
  shows "k_last_updated_timestamp d = Val (a_incoming_last_updated_timestamp a)"
proof -
  from assms obtain its where i: "truthy_int (k_last_updated_timestamp d) = Some its"
    and "a_incoming_last_updated_timestamp a = its"
    by (auto simp: validate_def Option.bind_eq_Some_conv)
  moreover from i have "k_last_updated_timestamp d = Val its"
    by (cases "k_last_updated_timestamp d") (auto split: if_splits)
  ultimately show ?thesis by simp
qed

lemma new_row_timestamp:
  assumes "validate d m = Some a"
  shows "last_updated_timestamp (new_row s d a) = Some (a_incoming_last_updated_timestamp a)"
  using validate_timestamp [OF assms]
  by (simp add: new_row_def insert_values_def Event_init_def)

lemma new_row_holds:
  assumes "validate d m = Some a"
    and "k_home_score d \<noteq> PyNone" and "k_away_score d \<noteq> PyNone"
  shows "apply_update d (a_source_name a) (a_incoming_last_updated_timestamp a) (new_row s d a)
           = new_row s d a"
proof -
  have h: "assign (k_home_score d) (case dict_get (k_home_score d) of None \<Rightarrow> Some 0 | Some v \<Rightarrow> Some v)
             = (case dict_get (k_home_score d) of None \<Rightarrow> Some 0 | Some v \<Rightarrow> Some v)"
    using assms(2) by (cases "k_home_score d") auto
  have aw: "assign (k_away_score d) (case dict_get (k_away_score d) of None \<Rightarrow> Some 0 | Some v \<Rightarrow> Some v)
             = (case dict_get (k_away_score d) of None \<Rightarrow> Some 0 | Some v \<Rightarrow> Some v)"
    using assms(3) by (cases "k_away_score d") auto
  show ?thesis
    using validate_timestamp [OF assms(1)]
    by (cases "k_statistics d")
      (simp_all add: new_row_def insert_values_def Event_init_def apply_update_def h aw)
qed

lemma fresh_id_gt: "i \<in> set ids \<Longrightarrow> i < fresh_id ids"
  by (induction ids) (auto simp: fresh_id_def)

lemma fresh_id_notin: "fresh_id ids \<notin> set ids"
  using fresh_id_gt by blast

lemma ev_id_new_row [simp]: "ev_id (new_row s d a) = fresh_id (map ev_id (events s))"
  by (simp add: new_row_def)

lemma insert_event_cases:
  "insert_event s d (Event_init d (a_source_name a)) = Inl IntegrityError \<or>
   (insert_event s d (Event_init d (a_source_name a))
      = Inr (s \<lparr> events := events s @ [new_row s d a] \<rparr>, new_row s d a) \<and>
    (\<forall>r\<in>set (events s). \<not> uq_event_canonical_violated (new_row s d a) r))"
  by (auto simp: insert_event_def new_row_def Let_def list_ex_iff)

lemma find_by_attributes_in:
  "find_event_by_attributes s a = Some x \<Longrightarrow> x \<in> set (events s)"
  by (auto simp: find_event_by_attributes_def find_Some_iff in_set_conv_nth)

lemma save_on_error:
  assumes "validate d m = Some a" and "attempt s s d a = Inl err"
  shows "snd (save_or_update_event s d m) = s \<and>
         (\<forall>e. fst (save_or_update_event s d m) \<noteq> Persisted e) \<and>
         (\<forall>e. fst (save_or_update_event s d m) = ConflictResolved e \<longrightarrow> e \<in> set (events s))"
  using assms find_by_attributes_in [of s a]
  by (auto simp: save_or_update_event_def save_or_update_event_on_def split: option.splits)

lemma save_on_ok:
  assumes "validate d m = Some a" and "attempt s s d a = Inr (e, s')"
  shows "save_or_update_event s d m = (Persisted e, s')"
  using assms by (simp add: save_or_update_event_def save_or_update_event_on_def)

lemma attempt_existing:
  assumes r: "resolve_target s a = Inr (mp, Some target)"
    and t: "last_updated_timestamp target = Some stored"
  shows "attempt s s d a =
     (let upd = spec_accepts d (a_incoming_last_updated_timestamp a) stored target;
          e = (if upd then apply_update d (a_source_name a) (a_incoming_last_updated_timestamp a) target
               else target)
      in bind_err (commit s (if upd then Some e else None) (mp = None) (ev_id target) a)
           (\<lambda>db'. Inr (e, db')))"
  unfolding attempt_def
  by (simp add: r should_update_eq [OF t] bind_err_def Let_def split: sum.splits)

lemma attempt_new:
  assumes r: "resolve_target s a = Inr (mp, None)"
  shows "attempt s s d a =
     bind_err (insert_event s d (Event_init d (a_source_name a)))
       (\<lambda>(db1, new_event).
          bind_err (commit db1 None (mp = None) (ev_id new_event) a) (\<lambda>db'. Inr (new_event, db')))"
  unfolding attempt_def by (simp add: r bind_err_def)

lemma save_cases:
  assumes v: "validate d m = Some a"
  shows "(events (snd (save_or_update_event s d m)) = events s \<and>
          (\<forall>e. fst (save_or_update_event s d m) = Persisted e \<longrightarrow>
               e \<in> set (events s) \<and>
               (\<exists>stored. last_updated_timestamp e = Some stored \<and>
                   \<not> spec_accepts d (a_incoming_last_updated_timestamp a) stored e)) \<and>
          (\<forall>e. fst (save_or_update_event s d m) = ConflictResolved e \<longrightarrow> e \<in> set (events s)))
       \<or> (\<exists>target stored. target \<in> set (events s) \<and>
             last_updated_timestamp target = Some stored \<and>
             spec_accepts d (a_incoming_last_updated_timestamp a) stored target \<and>
             fst (save_or_update_event s d m) =
               Persisted (apply_update d (a_source_name a) (a_incoming_last_updated_timestamp a) target) \<and>
             events (snd (save_or_update_event s d m)) =
               map (\<lambda>x. if ev_id x = ev_id target
                         then apply_update d (a_source_name a) (a_incoming_last_updated_timestamp a) target
                         else x) (events s) \<and>
             (\<forall>r\<in>set (events s). ev_id r \<noteq> ev_id target \<longrightarrow>
                \<not> uq_event_canonical_violated
                    (apply_update d (a_source_name a) (a_incoming_last_updated_timestamp a) target) r))
       \<or> (fst (save_or_update_event s d m) = Persisted (new_row s d a) \<and>
           events (snd (save_or_update_event s d m)) = events s @ [new_row s d a] \<and>
           (\<forall>r\<in>set (events s). \<not> uq_event_canonical_violated (new_row s d a) r))"
    (is "?A \<or> ?B \<or> ?C")
proof -
  let ?its = "a_incoming_last_updated_timestamp a"
  have err: "?A" if "attempt s s d a = Inl e" for e
    using save_on_error [OF v that] by simp
  show ?thesis
  proof (cases "resolve_target s a")
    case (Inl e)
    then have "attempt s s d a = Inl e" by (simp add: attempt_def bind_err_def)
    then show ?thesis using err by blast
  next
    case (Inr p)
    obtain mp found where p: "p = (mp, found)" by (cases p)
    show ?thesis
    proof (cases found)
      case None
      note r = Inr [unfolded p None]
      note A = attempt_new [OF r, of d]
      from insert_event_cases [of s d a] show ?thesis
      proof
        assume "insert_event s d (Event_init d (a_source_name a)) = Inl IntegrityError"
        then have "attempt s s d a = Inl IntegrityError" by (simp add: A bind_err_def)
        then show ?thesis using err by blast
      next
        assume "insert_event s d (Event_init d (a_source_name a))
                     = Inr (s \<lparr> events := events s @ [new_row s d a] \<rparr>, new_row s d a) \<and>
                (\<forall>r\<in>set (events s). \<not> uq_event_canonical_violated (new_row s d a) r)"
        then have i: "insert_event s d (Event_init d (a_source_name a))
                     = Inr (s \<lparr> events := events s @ [new_row s d a] \<rparr>, new_row s d a)"
          and q: "\<forall>r\<in>set (events s). \<not> uq_event_canonical_violated (new_row s d a) r"
          by simp_all
        let ?s1 = "s \<lparr> events := events s @ [new_row s d a] \<rparr>"
        from commit_no_change [of ?s1 "mp = None" "ev_id (new_row s d a)" a] show ?thesis
        proof
          assume "commit ?s1 None (mp = None) (ev_id (new_row s d a)) a = Inl IntegrityError"
          then have "attempt s s d a = Inl IntegrityError" by (simp add: A i bind_err_def)
          then show ?thesis using err by blast
        next
          assume "\<exists>s'. commit ?s1 None (mp = None) (ev_id (new_row s d a)) a = Inr s' \<and>
                       events s' = events ?s1"
          then obtain s' where c: "commit ?s1 None (mp = None) (ev_id (new_row s d a)) a = Inr s'"
            and e: "events s' = events ?s1" by blast
          have "attempt s s d a = Inr (new_row s d a, s')" using c by (simp add: A i bind_err_def)
          from save_on_ok [OF v this] e q have ?C by simp
          then show ?thesis by blast
        qed
      qed
    next
      case (Some target)
      note r = Inr [unfolded p Some]
      have tin: "target \<in> set (events s)" by (rule resolve_target_in_events [OF r])
      show ?thesis
      proof (cases "last_updated_timestamp target")
        case None
        then have "attempt s s d a = Inl TypeError"
          by (simp add: attempt_def r bind_err_def should_update_def)
        then show ?thesis using err by blast
      next
        case (Some stored)
        note A = attempt_existing [OF r Some, of d]
        let ?merged = "apply_update d (a_source_name a) ?its target"
        show ?thesis
        proof (cases "spec_accepts d ?its stored target")
          case True
          have eq: "ev_id target = ev_id ?merged" by simp
          from commit_change [OF tin eq, of "mp = None" "ev_id target" a] show ?thesis
          proof
            assume "commit s (Some ?merged) (mp = None) (ev_id target) a = Inl IntegrityError"
            then have "attempt s s d a = Inl IntegrityError" by (simp add: A True bind_err_def)
            then show ?thesis using err by blast
          next
            assume "\<exists>s'. commit s (Some ?merged) (mp = None) (ev_id target) a = Inr s' \<and>
                events s' = map (\<lambda>r. if ev_id r = ev_id ?merged then ?merged else r) (events s) \<and>
                (\<forall>r\<in>set (events s). ev_id r \<noteq> ev_id ?merged \<longrightarrow>
                   \<not> uq_event_canonical_violated ?merged r)"
            then obtain s' where c: "commit s (Some ?merged) (mp = None) (ev_id target) a = Inr s'"
              and e: "events s' = map (\<lambda>r. if ev_id r = ev_id target then ?merged else r) (events s)"
              and q: "\<forall>r\<in>set (events s). ev_id r \<noteq> ev_id target \<longrightarrow>
                   \<not> uq_event_canonical_violated ?merged r"
              by auto
            have "attempt s s d a = Inr (?merged, s')" by (simp add: A True c bind_err_def)
            from save_on_ok [OF v this] e q tin Some True have ?B by auto
            then show ?thesis by blast
          qed
        next
          case False
          from commit_no_change [of s "mp = None" "ev_id target" a] show ?thesis
          proof
            assume "commit s None (mp = None) (ev_id target) a = Inl IntegrityError"
            then have "attempt s s d a = Inl IntegrityError" by (simp add: A False bind_err_def)
            then show ?thesis using err by blast
          next
            assume "\<exists>s'. commit s None (mp = None) (ev_id target) a = Inr s' \<and> events s' = events s"
            then obtain s' where c: "commit s None (mp = None) (ev_id target) a = Inr s'"
              and e: "events s' = events s" by blast
            have "attempt s s d a = Inr (target, s')" by (simp add: A False c bind_err_def)
            from save_on_ok [OF v this] e tin Some False have ?A by auto
            then show ?thesis by blast
          qed
        qed
      qed
    qed
  qed
qed

lemma ev_id_map_replace:
  "ev_id e = i \<Longrightarrow> ev_id \<circ> (\<lambda>x. if ev_id x = i then e else x) = ev_id"
  by (auto simp: fun_eq_iff)

lemma save_distinct_ids:
  assumes v: "validate d m = Some a" and dist: "distinct (map ev_id (events s))"
  shows "distinct (map ev_id (events (snd (save_or_update_event s d m))))"
  using save_cases [OF v, of s]
proof (elim disjE exE conjE)
  assume "events (snd (save_or_update_event s d m)) = events s"
  then show ?thesis using dist by simp
next
  fix target stored
  assume "events (snd (save_or_update_event s d m)) =
      map (\<lambda>x. if ev_id x = ev_id target
                then apply_update d (a_source_name a) (a_incoming_last_updated_timestamp a) target
                else x) (events s)"
  then show ?thesis using dist by (simp add: ev_id_map_replace)
next
  assume "events (snd (save_or_update_event s d m)) = events s @ [new_row s d a]"
  then show ?thesis using dist fresh_id_notin [of "map ev_id (events s)"] by simp
qed

lemma save_rows_old_or_stamped:
  assumes v: "validate d m = Some a"
    and e: "e \<in> set (events (snd (save_or_update_event s d m)))"
  shows "e \<in> set (events s) \<or>
         last_updated_timestamp e = Some (a_incoming_last_updated_timestamp a)"
  using save_cases [OF v, of s]
proof (elim disjE exE conjE)
  assume "events (snd (save_or_update_event s d m)) = events s"
  then show ?thesis using e by simp
next
  fix target stored
  assume "events (snd (save_or_update_event s d m)) =
      map (\<lambda>x. if ev_id x = ev_id target
                then apply_update d (a_source_name a) (a_incoming_last_updated_timestamp a) target
                else x) (events s)"
  then show ?thesis using e by (auto split: if_splits)
next
  assume "events (snd (save_or_update_event s d m)) = events s @ [new_row s d a]"
  then show ?thesis using e new_row_timestamp [OF v, of s] by auto
qed

lemma distinct_ids_eq:
  assumes "distinct (map ev_id xs)" and "x \<in> set xs" and "y \<in> set xs" and "ev_id x = ev_id y"
  shows "x = y"
  using assms by (meson distinct_map inj_on_eq_iff)

lemma persisted_holds:
  assumes v: "validate d m = Some a"
    and sc: "k_home_score d \<noteq> PyNone" "k_away_score d \<noteq> PyNone"
    and p: "save_or_update_event s d m = (Persisted e, s')"
    and older: "\<forall>x\<in>set (events s). ev_id x = ev_id e \<longrightarrow>
                  (\<exists>t. last_updated_timestamp x = Some t \<and> t < a_incoming_last_updated_timestamp a)"
  shows "e \<in> set (events s') \<and>
         apply_update d (a_source_name a) (a_incoming_last_updated_timestamp a) e = e"
  using save_cases [OF v, of s]
proof (elim disjE exE conjE)
  assume "\<forall>e. fst (save_or_update_event s d m) = Persisted e \<longrightarrow>
               e \<in> set (events s) \<and>
               (\<exists>stored. last_updated_timestamp e = Some stored \<and>
                   \<not> spec_accepts d (a_incoming_last_updated_timestamp a) stored e)"
  then have "e \<in> set (events s)" and
    "\<exists>stored. last_updated_timestamp e = Some stored \<and>
        \<not> spec_accepts d (a_incoming_last_updated_timestamp a) stored e"
    using p by auto
  then have False using older by (auto simp: spec_accepts_def)
  then show ?thesis ..
next
  fix target stored
  assume tin: "target \<in> set (events s)"
    and f: "fst (save_or_update_event s d m) =
       Persisted (apply_update d (a_source_name a) (a_incoming_last_updated_timestamp a) target)"
    and ev: "events (snd (save_or_update_event s d m)) =
      map (\<lambda>x. if ev_id x = ev_id target
                then apply_update d (a_source_name a) (a_incoming_last_updated_timestamp a) target
                else x) (events s)"
  from f p have e: "e = apply_update d (a_source_name a) (a_incoming_last_updated_timestamp a) target"
    by simp
  have "e \<in> set (events s')"
    using ev p tin unfolding e by (auto simp: image_iff intro!: bexI [of _ target])
  then show ?thesis unfolding e by (simp add: apply_update_idem)
next
  assume f: "fst (save_or_update_event s d m) = Persisted (new_row s d a)"
    and ev: "events (snd (save_or_update_event s d m)) = events s @ [new_row s d a]"
  from f p have e: "e = new_row s d a" by simp
  show ?thesis using ev p new_row_holds [OF v sc, of s] unfolding e by simp
qed

lemma stale_keeps:
  assumes v: "validate d m = Some a"
    and dist: "distinct (map ev_id (events s))"
    and ein: "e \<in> set (events s)"
    and ts: "last_updated_timestamp e = Some t"
    and lt: "a_incoming_last_updated_timestamp a < t"
  shows "e \<in> set (events (snd (save_or_update_event s d m))) \<and>
         (\<forall>x. returned (fst (save_or_update_event s d m)) = Some x \<and> ev_id x = ev_id e \<longrightarrow> x = e)"
  using save_cases [OF v, of s]
proof (elim disjE exE conjE)
  assume same: "events (snd (save_or_update_event s d m)) = events s"
    and P: "\<forall>e. fst (save_or_update_event s d m) = Persisted e \<longrightarrow>
               e \<in> set (events s) \<and>
               (\<exists>stored. last_updated_timestamp e = Some stored \<and>
                   \<not> spec_accepts d (a_incoming_last_updated_timestamp a) stored e)"
    and C: "\<forall>e. fst (save_or_update_event s d m) = ConflictResolved e \<longrightarrow> e \<in> set (events s)"
  have "x = e" if "returned (fst (save_or_update_event s d m)) = Some x" "ev_id x = ev_id e" for x
  proof -
    have "x \<in> set (events s)"
      using that(1) P C by (cases "fst (save_or_update_event s d m)") auto
    then show ?thesis using distinct_ids_eq [OF dist _ ein that(2)] by simp
  qed
  then show ?thesis using same ein by auto
next
  fix target stored
  assume tin: "target \<in> set (events s)"
    and st: "last_updated_timestamp target = Some stored"
    and acc: "spec_accepts d (a_incoming_last_updated_timestamp a) stored target"
    and f: "fst (save_or_update_event s d m) =
       Persisted (apply_update d (a_source_name a) (a_incoming_last_updated_timestamp a) target)"
    and ev: "events (snd (save_or_update_event s d m)) =
      map (\<lambda>x. if ev_id x = ev_id target
                then apply_update d (a_source_name a) (a_incoming_last_updated_timestamp a) target
                else x) (events s)"
  have ne: "ev_id target \<noteq> ev_id e"
  proof
    assume "ev_id target = ev_id e"
    then have "target = e" using distinct_ids_eq [OF dist tin ein] by simp
    then have "stored = t" using st ts by simp
    then show False using acc lt by (auto simp: spec_accepts_def)
  qed
  have "e \<in> set (events (snd (save_or_update_event s d m)))"
    unfolding ev using ein ne by (auto simp: image_iff intro!: bexI [of _ e])
  then show ?thesis using f ne by auto
next
  assume f: "fst (save_or_update_event s d m) = Persisted (new_row s d a)"
    and ev: "events (snd (save_or_update_event s d m)) = events s @ [new_row s d a]"
  have "ev_id (new_row s d a) \<noteq> ev_id e"
    using fresh_id_notin [of "map ev_id (events s)"] ein by auto
  then show ?thesis using f ev ein by auto
qed

subsection \<open>Two observations of one event\<close>

text \<open>An observation that covers another overwrites all that the other wrote.\<close>

lemma assign_cover:
  "(x \<noteq> Absent \<longrightarrow> y \<noteq> Absent) \<Longrightarrow> assign y (assign x old) = assign y old"
  by (cases x; cases y) auto

lemma assign_cover_get:
  "(x \<noteq> Absent \<longrightarrow> y \<noteq> Absent) \<Longrightarrow> assign y (dict_get x) = dict_get y"
  by (cases x; cases y) auto

lemma apply_update_covers:
  assumes "covers dB dA"
  shows "apply_update dB snB tsB (apply_update dA snA tsA e) = apply_update dB snB tsB e"
  using assms by (simp add: apply_update_def covers_def assign_cover)

lemma new_row_covers:
  assumes v: "validate dB mB = Some aB" and c: "covers dB dA"
    and sc: "k_home_score dB \<noteq> PyNone" "k_away_score dB \<noteq> PyNone"
  shows "apply_update dB (a_source_name aB) (a_incoming_last_updated_timestamp aB) (new_row s dA aA)
           = new_row s dB aB"
proof -
  have h: "assign (k_home_score dB) (case dict_get (k_home_score dA) of None \<Rightarrow> Some 0 | Some v \<Rightarrow> Some v)
             = (case dict_get (k_home_score dB) of None \<Rightarrow> Some 0 | Some v \<Rightarrow> Some v)"
    using sc(1) c by (cases "k_home_score dB"; cases "k_home_score dA") (auto simp: covers_def)
  have aw: "assign (k_away_score dB) (case dict_get (k_away_score dA) of None \<Rightarrow> Some 0 | Some v \<Rightarrow> Some v)
             = (case dict_get (k_away_score dB) of None \<Rightarrow> Some 0 | Some v \<Rightarrow> Some v)"
    using sc(2) c by (cases "k_away_score dB"; cases "k_away_score dA") (auto simp: covers_def)
  show ?thesis
    using validate_timestamp [OF v] c
    by (cases "k_statistics dB"; cases "k_statistics dA")
      (simp_all add: new_row_def insert_values_def Event_init_def apply_update_def h aw
         covers_def assign_cover_get)
qed

lemma map_replace_twice:
  "ev_id r1 = i \<Longrightarrow>
   map (\<lambda>x. if ev_id x = i then r2 else x) (map (\<lambda>x. if ev_id x = i then r1 else x) xs)
     = map (\<lambda>x. if ev_id x = i then r2 else x) xs"
  by (induction xs) auto

lemma map_replace_absent:
  "i \<notin> ev_id ` set xs \<Longrightarrow> map (\<lambda>x. if ev_id x = i then r else x) xs = xs"
  by (induction xs) auto

lemma persisted_cases:
  assumes v: "validate d m = Some a" and p: "save_or_update_event s d m = (Persisted e, s')"
  shows "(e \<in> set (events s) \<and> events s' = events s \<and>
          (\<exists>stored. last_updated_timestamp e = Some stored \<and>
              \<not> spec_accepts d (a_incoming_last_updated_timestamp a) stored e))
       \<or> (\<exists>target stored. target \<in> set (events s) \<and>
             last_updated_timestamp target = Some stored \<and>
             spec_accepts d (a_incoming_last_updated_timestamp a) stored target \<and>
             e = apply_update d (a_source_name a) (a_incoming_last_updated_timestamp a) target \<and>
             events s' = map (\<lambda>x. if ev_id x = ev_id target then e else x) (events s))
       \<or> (e = new_row s d a \<and> events s' = events s @ [e])"
  using save_cases [OF v, of s] unfolding p by (auto simp: fst_conv snd_conv)

lemma save_not_persisted:
  assumes "\<forall>e. fst (save_or_update_event s d m) \<noteq> Persisted e"
  shows "snd (save_or_update_event s d m) = s"
  using assms
  by (auto simp: save_or_update_event_def save_or_update_event_on_def
        split: option.splits sum.splits prod.splits if_splits)

lemma new_row_same_events: "events s1 = events s \<Longrightarrow> new_row s1 d a = new_row s d a"
  by (simp add: new_row_def)

lemma in_map_replace:
  assumes "x \<in> set (map (\<lambda>y. if ev_id y = i then r else y) xs)" and "ev_id x = i" and "ev_id r = i"
  shows "x = r"
  using assms by (auto split: if_splits)

lemma fresh_not_id: "x \<in> set (events s) \<Longrightarrow> ev_id x \<noteq> fresh_id (map ev_id (events s))"
  using fresh_id_notin [of "map ev_id (events s)"] by force

text \<open>B first, then A: the event B wrote stays, and the events are those B left.\<close>

lemma stale_second:
  assumes vA: "validate dA mA = Some aA"
    and dist: "distinct (map ev_id (events sB))"
    and ein: "eB \<in> set (events sB)"
    and ts: "last_updated_timestamp eB = Some tB"
    and lt: "a_incoming_last_updated_timestamp aA < tB"
    and same: "\<forall>e. fst (save_or_update_event sB dA mA) = Persisted e \<longrightarrow> ev_id e = ev_id eB"
  shows "events (snd (save_or_update_event sB dA mA)) = events sB"
  using save_cases [OF vA, of sB]
proof (elim disjE exE conjE)
  assume "events (snd (save_or_update_event sB dA mA)) = events sB"
  then show ?thesis .
next
  fix target stored
  assume tin: "target \<in> set (events sB)"
    and st: "last_updated_timestamp target = Some stored"
    and acc: "spec_accepts dA (a_incoming_last_updated_timestamp aA) stored target"
    and f: "fst (save_or_update_event sB dA mA) =
       Persisted (apply_update dA (a_source_name aA) (a_incoming_last_updated_timestamp aA) target)"
  from same f have "ev_id target = ev_id eB" by simp
  then have "target = eB" using distinct_ids_eq [OF dist tin ein] by simp
  then have "stored = tB" using st ts by simp
  then have False using acc lt by (auto simp: spec_accepts_def)
  then show ?thesis ..
next
  assume f: "fst (save_or_update_event sB dA mA) = Persisted (new_row sB dA aA)"
  from same f have "ev_id (new_row sB dA aA) = ev_id eB" by simp
  then have False using fresh_not_id [OF ein] by simp
  then show ?thesis ..
qed

lemma accepted_or_created:
  assumes v: "validate d m = Some a"
    and p: "save_or_update_event s d m = (Persisted e, s')"
    and older: "\<forall>x\<in>set (events s). ev_id x = ev_id e \<longrightarrow>
                  (\<exists>t. last_updated_timestamp x = Some t \<and> t < a_incoming_last_updated_timestamp a)"
  shows "(\<exists>target\<in>set (events s). ev_id target = ev_id e \<and>
            e = apply_update d (a_source_name a) (a_incoming_last_updated_timestamp a) target \<and>
            events s' = map (\<lambda>x. if ev_id x = ev_id e then e else x) (events s))
       \<or> (e = new_row s d a \<and> events s' = events s @ [e] \<and>
           ev_id e = fresh_id (map ev_id (events s)))"
  using persisted_cases [OF v p]
proof (elim disjE exE conjE)
  fix stored
  assume "e \<in> set (events s)" "last_updated_timestamp e = Some stored"
    "\<not> spec_accepts d (a_incoming_last_updated_timestamp a) stored e"
  then have False using older by (auto simp: spec_accepts_def)
  then show ?thesis ..
next
  fix target stored
  assume tin: "target \<in> set (events s)"
    and e: "e = apply_update d (a_source_name a) (a_incoming_last_updated_timestamp a) target"
    and ev: "events s' = map (\<lambda>x. if ev_id x = ev_id target then e else x) (events s)"
  have "ev_id target = ev_id e" unfolding e by simp
  then show ?thesis using tin e ev by auto
next
  assume "e = new_row s d a" "events s' = events s @ [e]"
  then show ?thesis by simp
qed

lemma first_cases:
  assumes v: "validate d m = Some a"
    and p: "save_or_update_event s d m = (out, s')"
    and same: "\<forall>e. out = Persisted e \<longrightarrow> ev_id e = i"
  shows "events s' = events s
       \<or> (\<exists>target\<in>set (events s). ev_id target = i \<and>
            events s' = map (\<lambda>x. if ev_id x = i
                 then apply_update d (a_source_name a) (a_incoming_last_updated_timestamp a) target
                 else x) (events s))
       \<or> (i = fresh_id (map ev_id (events s)) \<and> events s' = events s @ [new_row s d a])"
  using save_cases [OF v, of s] unfolding p fst_conv snd_conv
proof (elim disjE exE conjE)
  assume "events s' = events s"
  then show ?thesis by simp
next
  fix target stored
  assume tin: "target \<in> set (events s)"
    and f: "out = Persisted (apply_update d (a_source_name a) (a_incoming_last_updated_timestamp a) target)"
    and ev: "events s' = map (\<lambda>x. if ev_id x = ev_id target
                then apply_update d (a_source_name a) (a_incoming_last_updated_timestamp a) target
                else x) (events s)"
  from same f have "ev_id target = i" by simp
  then show ?thesis using tin ev by auto
next
  assume f: "out = Persisted (new_row s d a)"
    and ev: "events s' = events s @ [new_row s d a]"
  from same f have "i = fresh_id (map ev_id (events s))" by simp
  then show ?thesis using ev by simp
qed

text \<open>
  Claim C3, as amended. Let A and B be two observations that pass the guard, A with
  the earlier time stamp, and let B cover A. Take a database with distinct event ids
  and an id \<open>i\<close> such that the event \<open>i\<close>, if the database has it, carries a time stamp
  earlier than B's, and such that B's scores are not \<open>None\<close> if the database does not
  have it. Suppose that the call for B is committed on the event \<open>i\<close> in both orders of
  arrival (it is not rolled back), and that the call for A, whenever it is committed, is
  committed on the event \<open>i\<close> too. Then the order of arrival does not matter: B's call
  returns the same event in both orders, the table of events is the same after A then B
  and after B then A, the call for A after B leaves the table as B left it, and the event
  \<open>i\<close> in it holds B's fields.
\<close>

theorem merge_monotonic:
  assumes dist: "distinct (map ev_id (events s))"
    and vA: "validate dA mA = Some aA"
    and vB: "validate dB mB = Some aB"
    and lt: "a_incoming_last_updated_timestamp aA < a_incoming_last_updated_timestamp aB"
    and cov: "covers dB dA"
    and older: "\<forall>x\<in>set (events s). ev_id x = i \<longrightarrow>
                  (\<exists>t0. last_updated_timestamp x = Some t0 \<and>
                        t0 < a_incoming_last_updated_timestamp aB)"
    and sc: "i \<notin> ev_id ` set (events s) \<longrightarrow>
               k_home_score dB \<noteq> PyNone \<and> k_away_score dB \<noteq> PyNone"
    and ab1: "save_or_update_event s dA mA = (oA, sA)"
    and ab2: "save_or_update_event sA dB mB = (Persisted eAB, sAB)"
    and ba1: "save_or_update_event s dB mB = (Persisted eB, sB)"
    and ba2: "save_or_update_event sB dA mA = (oBA, sBA)"
    and idB: "ev_id eAB = i" "ev_id eB = i"
    and idA: "\<forall>e. oA = Persisted e \<longrightarrow> ev_id e = i" "\<forall>e. oBA = Persisted e \<longrightarrow> ev_id e = i"
  shows "eAB = eB \<and> events sAB = events sBA \<and> events sBA = events sB \<and>
         eB \<in> set (events sBA) \<and>
         apply_update dB (a_source_name aB) (a_incoming_last_updated_timestamp aB) eB = eB"
proof -
  let ?tsA = "a_incoming_last_updated_timestamp aA"
  let ?tsB = "a_incoming_last_updated_timestamp aB"
  let ?upA = "apply_update dA (a_source_name aA) ?tsA"
  let ?upB = "apply_update dB (a_source_name aB) ?tsB"
  let ?fresh = "fresh_id (map ev_id (events s))"
  have sA: "sA = snd (save_or_update_event s dA mA)" and sB: "sB = snd (save_or_update_event s dB mB)"
    using ab1 ba1 by simp_all
  have distA: "distinct (map ev_id (events sA))"
    unfolding sA by (rule save_distinct_ids [OF vA dist])
  have distB: "distinct (map ev_id (events sB))"
    unfolding sB by (rule save_distinct_ids [OF vB dist])
  have olderB: "\<forall>x\<in>set (events s). ev_id x = ev_id eB \<longrightarrow>
      (\<exists>t. last_updated_timestamp x = Some t \<and> t < ?tsB)"
    using older idB(2) by simp
  have olderA: "\<forall>x\<in>set (events sA). ev_id x = ev_id eAB \<longrightarrow>
      (\<exists>t. last_updated_timestamp x = Some t \<and> t < ?tsB)"
  proof (intro ballI impI)
    fix x assume x: "x \<in> set (events sA)" and xi: "ev_id x = ev_id eAB"
    from save_rows_old_or_stamped [OF vA x [unfolded sA]]
    show "\<exists>t. last_updated_timestamp x = Some t \<and> t < ?tsB"
      using older xi idB(1) lt by auto
  qed
  note B1 = accepted_or_created [OF vB ba1 olderB, unfolded idB(2)]
  note B2 = accepted_or_created [OF vB ab2 olderA, unfolded idB(1)]
  note A1 = first_cases [OF vA ab1 idA(1)]
  txt \<open>B first: the event B wrote is in the store and carries B's fields.\<close>
  have tsB: "last_updated_timestamp eB = Some ?tsB"
    using B1 new_row_timestamp [OF vB, of s] by auto
  have scC: "k_home_score dB \<noteq> PyNone" "k_away_score dB \<noteq> PyNone" if "i = ?fresh"
    using sc that fresh_id_notin [of "map ev_id (events s)"] by auto
  have holdsB: "?upB eB = eB"
    using B1
  proof (elim disjE bexE conjE)
    fix target assume "eB = ?upB target"
    then show ?thesis by (simp add: apply_update_idem)
  next
    assume e: "eB = new_row s dB aB" and "i = ?fresh"
    then show ?thesis using new_row_holds [OF vB scC, of s] by simp
  qed
  have inB: "eB \<in> set (events sB)"
    using B1
  proof (elim disjE bexE conjE)
    fix target
    assume tin: "target \<in> set (events s)" and ti: "ev_id target = i"
      and ev: "events sB = map (\<lambda>x. if ev_id x = i then eB else x) (events s)"
    have "eB = (\<lambda>x. if ev_id x = i then eB else x) target" using ti by simp
    then have "eB \<in> (\<lambda>x. if ev_id x = i then eB else x) ` set (events s)"
      using tin by (rule image_eqI)
    then show ?thesis unfolding ev by simp
  next
    assume "events sB = events s @ [eB]"
    then show ?thesis by simp
  qed
  txt \<open>Then A: it is stale and changes nothing.\<close>
  have sBA: "sBA = snd (save_or_update_event sB dA mA)" and oBA: "oBA = fst (save_or_update_event sB dA mA)"
    using ba2 by simp_all
  have keepB: "events sBA = events sB"
    unfolding sBA
    by (rule stale_second [OF vA distB inB tsB lt]) (use idA(2) idB(2) oBA in simp)
  txt \<open>A first, then B.\<close>
  have eq: "eAB = eB \<and> events sAB = events sB"
    using B1
  proof (elim disjE bexE conjE)
    fix tB
    assume tB: "tB \<in> set (events s)" and tBi: "ev_id tB = i"
      and eB: "eB = ?upB tB"
      and evB: "events sB = map (\<lambda>x. if ev_id x = i then eB else x) (events s)"
    have nf: "i \<noteq> ?fresh" using fresh_not_id [OF tB] tBi by simp
    from A1 show ?thesis
    proof (elim disjE bexE conjE)
      assume evA: "events sA = events s"
      from B2 show ?thesis
      proof (elim disjE bexE conjE)
        fix t2
        assume t2: "t2 \<in> set (events sA)" and t2i: "ev_id t2 = i" and e2: "eAB = ?upB t2"
          and ev2: "events sAB = map (\<lambda>x. if ev_id x = i then eAB else x) (events sA)"
        have "t2 = tB" using distinct_ids_eq [OF dist _ tB] t2 t2i tBi evA by simp
        then show ?thesis using e2 eB ev2 evB evA by simp
      next
        assume "i = fresh_id (map ev_id (events sA))"
        then show ?thesis using nf evA by simp
      qed
    next
      fix tA
      assume tA: "tA \<in> set (events s)" and tAi: "ev_id tA = i"
        and evA: "events sA = map (\<lambda>x. if ev_id x = i then ?upA tA else x) (events s)"
      have tAB: "tA = tB" using distinct_ids_eq [OF dist tA tB] tAi tBi by simp
      have rin: "?upA tA \<in> set (events sA)"
        unfolding evA using tA tAi by (auto simp: image_iff intro!: bexI [of _ tA])
      from B2 show ?thesis
      proof (elim disjE bexE conjE)
        fix t2
        assume t2: "t2 \<in> set (events sA)" and t2i: "ev_id t2 = i" and e2: "eAB = ?upB t2"
          and ev2: "events sAB = map (\<lambda>x. if ev_id x = i then eAB else x) (events sA)"
        have "t2 = ?upA tA"
          by (rule in_map_replace [OF t2 [unfolded evA] t2i]) (simp add: tAi)
        then have e: "eAB = eB" using e2 eB tAB apply_update_covers [OF cov] by simp
        have "events sAB = map (\<lambda>x. if ev_id x = i then eAB else x) (events s)"
          unfolding ev2 evA by (rule map_replace_twice) (simp add: tAi)
        then show ?thesis using e evB by simp
      next
        assume f: "i = fresh_id (map ev_id (events sA))"
        have "ev_id (?upA tA) \<noteq> fresh_id (map ev_id (events sA))" by (rule fresh_not_id [OF rin])
        then show ?thesis using f tAi by simp
      qed
    next
      assume "i = ?fresh"
      then show ?thesis using nf by simp
    qed
  next
    assume eB: "eB = new_row s dB aB" and evB: "events sB = events s @ [eB]" and fr: "i = ?fresh"
    have notin: "i \<notin> ev_id ` set (events s)"
      using fresh_id_notin [of "map ev_id (events s)"] fr by simp
    from A1 show ?thesis
    proof (elim disjE bexE conjE)
      assume evA: "events sA = events s"
      from B2 show ?thesis
      proof (elim disjE bexE conjE)
        fix t2
        assume "t2 \<in> set (events sA)" "ev_id t2 = i"
        then show ?thesis using notin evA by auto
      next
        assume "eAB = new_row sA dB aB" "events sAB = events sA @ [eAB]"
        then show ?thesis using new_row_same_events [OF evA] eB evB evA by simp
      qed
    next
      fix tA assume "tA \<in> set (events s)" "ev_id tA = i"
      then show ?thesis using notin by auto
    next
      assume evA: "events sA = events s @ [new_row s dA aA]"
      have nAi: "ev_id (new_row s dA aA) = i" using fr by simp
      have nin: "new_row s dA aA \<in> set (events sA)" unfolding evA by simp
      from B2 show ?thesis
      proof (elim disjE bexE conjE)
        fix t2
        assume t2: "t2 \<in> set (events sA)" and t2i: "ev_id t2 = i" and e2: "eAB = ?upB t2"
          and ev2: "events sAB = map (\<lambda>x. if ev_id x = i then eAB else x) (events sA)"
        have "t2 = new_row s dA aA"
          using t2 t2i notin unfolding evA by auto
        then have e: "eAB = eB"
          using e2 eB new_row_covers [OF vB cov scC(1) [OF fr] scC(2) [OF fr]] by simp
        have "events sAB = events s @ [eAB]"
          unfolding ev2 evA using map_replace_absent [OF notin] nAi by simp
        then show ?thesis using e evB by simp
      next
        assume f: "i = fresh_id (map ev_id (events sA))"
        have "ev_id (new_row s dA aA) \<noteq> fresh_id (map ev_id (events sA))"
          by (rule fresh_not_id [OF nin])
        then show ?thesis using f nAi by simp
      qed
    qed
  qed
  show ?thesis using eq keepB inB holdsB by simp
qed

theorem merge_monotonic_witness:
  "save_or_update_event empty_store
     (ex_event 1000 (Val ''10'') 100 ''p1'' ''scheduled'' PyNone) (ex_source ''p1'' ''x'')
   = (Persisted (ex_row 1 1000 (Some ''10'') 100 ''p1'' ''scheduled'' None),
      \<lparr> events = [ex_row 1 1000 (Some ''10'') 100 ''p1'' ''scheduled'' None],
        mappings = [ex_mapping 1 1 ''p1'' ''x''] \<rparr>) \<and>
   save_or_update_event
     \<lparr> events = [ex_row 1 1000 (Some ''10'') 100 ''p1'' ''scheduled'' None],
       mappings = [ex_mapping 1 1 ''p1'' ''x''] \<rparr>
     (ex_event 1000 (Val ''10'') 200 ''p2'' ''inprogress'' (Val 3)) (ex_source ''p2'' ''y'')
   = (Persisted (ex_row 1 1000 (Some ''10'') 200 ''p2'' ''inprogress'' (Some 3)),
      \<lparr> events = [ex_row 1 1000 (Some ''10'') 200 ''p2'' ''inprogress'' (Some 3)],
        mappings = [ex_mapping 1 1 ''p1'' ''x'', ex_mapping 2 1 ''p2'' ''y''] \<rparr>) \<and>
   save_or_update_event empty_store
     (ex_event 1000 (Val ''10'') 200 ''p2'' ''inprogress'' (Val 3)) (ex_source ''p2'' ''y'')
   = (Persisted (ex_row 1 1000 (Some ''10'') 200 ''p2'' ''inprogress'' (Some 3)),
      \<lparr> events = [ex_row 1 1000 (Some ''10'') 200 ''p2'' ''inprogress'' (Some 3)],
        mappings = [ex_mapping 1 1 ''p2'' ''y''] \<rparr>) \<and>
   save_or_update_event
     \<lparr> events = [ex_row 1 1000 (Some ''10'') 200 ''p2'' ''inprogress'' (Some 3)],
       mappings = [ex_mapping 1 1 ''p2'' ''y''] \<rparr>
     (ex_event 1000 (Val ''10'') 100 ''p1'' ''scheduled'' PyNone) (ex_source ''p1'' ''x'')
   = (Persisted (ex_row 1 1000 (Some ''10'') 200 ''p2'' ''inprogress'' (Some 3)),
      \<lparr> events = [ex_row 1 1000 (Some ''10'') 200 ''p2'' ''inprogress'' (Some 3)],
        mappings = [ex_mapping 1 1 ''p2'' ''y'', ex_mapping 2 1 ''p1'' ''x''] \<rparr>) \<and>
   apply_update (ex_event 1000 (Val ''10'') 200 ''p2'' ''inprogress'' (Val 3)) ''p2'' 200
     (ex_row 1 1000 (Some ''10'') 200 ''p2'' ''inprogress'' (Some 3))
   = ex_row 1 1000 (Some ''10'') 200 ''p2'' ''inprogress'' (Some 3)"
proof -
  let ?dA = "ex_event 1000 (Val ''10'') 100 ''p1'' ''scheduled'' PyNone"
  let ?dB = "ex_event 1000 (Val ''10'') 200 ''p2'' ''inprogress'' (Val 3)"
  let ?mA = "ex_source ''p1'' ''x''"
  let ?mB = "ex_source ''p2'' ''y''"
  let ?aA = "\<lparr> a_event_timestamp = 1000, a_home_team_name = ''A'', a_away_team_name = ''B'',
              a_league_id = Some ''10'', a_incoming_last_updated_timestamp = 100,
              a_source_name = ''p1'', a_source_event_id = ''x'' \<rparr>"
  let ?aB = "\<lparr> a_event_timestamp = 1000, a_home_team_name = ''A'', a_away_team_name = ''B'',
              a_league_id = Some ''10'', a_incoming_last_updated_timestamp = 200,
              a_source_name = ''p2'', a_source_event_id = ''y'' \<rparr>"
  let ?rA = "ex_row 1 1000 (Some ''10'') 100 ''p1'' ''scheduled'' None"
  let ?rB = "ex_row 1 1000 (Some ''10'') 200 ''p2'' ''inprogress'' (Some 3)"
  let ?sA = "\<lparr> events = [?rA], mappings = [ex_mapping 1 1 ''p1'' ''x''] \<rparr>"
  let ?sAB = "\<lparr> events = [?rB],
                mappings = [ex_mapping 1 1 ''p1'' ''x'', ex_mapping 2 1 ''p2'' ''y''] \<rparr>"
  let ?sB = "\<lparr> events = [?rB], mappings = [ex_mapping 1 1 ''p2'' ''y''] \<rparr>"
  let ?sBA = "\<lparr> events = [?rB],
                mappings = [ex_mapping 1 1 ''p2'' ''y'', ex_mapping 2 1 ''p1'' ''x''] \<rparr>"
  have dist: "distinct (map ev_id (events empty_store))" by (simp add: empty_store_def)
  have vA: "validate ?dA ?mA = Some ?aA" by (simp add: validate_def ex_defs)
  have vB: "validate ?dB ?mB = Some ?aB" by (simp add: validate_def ex_defs)
  have lt: "a_incoming_last_updated_timestamp ?aA < a_incoming_last_updated_timestamp ?aB" by simp
  have cov: "covers ?dB ?dA" by (simp add: covers_def ex_defs)
  have older: "\<forall>x\<in>set (events empty_store). ev_id x = 1 \<longrightarrow>
      (\<exists>t0. last_updated_timestamp x = Some t0 \<and> t0 < a_incoming_last_updated_timestamp ?aB)"
    by (simp add: empty_store_def)
  have sc: "1 \<notin> ev_id ` set (events empty_store) \<longrightarrow>
      k_home_score ?dB \<noteq> PyNone \<and> k_away_score ?dB \<noteq> PyNone"
    by (simp add: ex_defs)
  have ab1: "save_or_update_event empty_store ?dA ?mA = (Persisted ?rA, ?sA)"
    by (simp add: upsert_defs ex_defs)
  have ab2: "save_or_update_event ?sA ?dB ?mB = (Persisted ?rB, ?sAB)"
    by (simp add: upsert_defs ex_defs)
  have ba1: "save_or_update_event empty_store ?dB ?mB = (Persisted ?rB, ?sB)"
    by (simp add: upsert_defs ex_defs)
  have ba2: "save_or_update_event ?sB ?dA ?mA = (Persisted ?rB, ?sBA)"
    by (simp add: upsert_defs ex_defs)
  have idB: "ev_id ?rB = 1" by (simp add: ex_defs)
  have idA1: "\<forall>e. Persisted ?rA = Persisted e \<longrightarrow> ev_id e = 1" by (auto simp: ex_defs)
  have idA2: "\<forall>e. Persisted ?rB = Persisted e \<longrightarrow> ev_id e = 1" by (auto simp: ex_defs)
  from merge_monotonic [OF dist vA vB lt cov older sc ab1 ab2 ba1 ba2 idB idB idA1 idA2]
  have "apply_update ?dB (a_source_name ?aB) (a_incoming_last_updated_timestamp ?aB) ?rB = ?rB"
    by simp
  then show ?thesis using ab1 ab2 ba1 ba2 by simp
qed

text \<open>
  The scenario of the specification: two providers report the same match with time
  stamps 100 and 200. In both orders one event exists, with two mappings and the fields
  of the later observation.
\<close>

lemma two_providers_a_then_b:
  "upserts empty_store
     [(ex_event 1000 (Val ''10'') 100 ''p1'' ''scheduled'' PyNone, ex_source ''p1'' ''x''),
      (ex_event 1000 (Val ''10'') 200 ''p2'' ''scheduled'' PyNone, ex_source ''p2'' ''y'')]
   = \<lparr> events = [ex_row 1 1000 (Some ''10'') 200 ''p2'' ''scheduled'' None],
       mappings = [ex_mapping 1 1 ''p1'' ''x'', ex_mapping 2 1 ''p2'' ''y''] \<rparr>"
  by (simp add: upsert_defs ex_defs)

lemma two_providers_b_then_a:
  "upserts empty_store
     [(ex_event 1000 (Val ''10'') 200 ''p2'' ''scheduled'' PyNone, ex_source ''p2'' ''y''),
      (ex_event 1000 (Val ''10'') 100 ''p1'' ''scheduled'' PyNone, ex_source ''p1'' ''x'')]
   = \<lparr> events = [ex_row 1 1000 (Some ''10'') 200 ''p2'' ''scheduled'' None],
       mappings = [ex_mapping 1 1 ''p2'' ''y'', ex_mapping 2 1 ''p1'' ''x''] \<rparr>"
  by (simp add: upsert_defs ex_defs)

text \<open>
  Claim C3 as stated fails, and each hypothesis of the amended statement is needed.
  In every pair below A has time stamp 100 and B has 200.
  \<^item> Rollback: one provider reports the match under two ids, on the empty database.
    After A then B the event holds A's fields (the mapping for B violates
    \<open>uq_event_id_source\<close> and B's overwrite is rolled back); after B then A it holds B's.
  \<^item> Another target: the database has event 1 with the mapping of B's provider; B moves
    the start instant. A then B ends with one event, B then A with two: after B, the call
    for A finds no event under its key and inserts event 2.
  \<^item> Stored event newer than B: event 1 carries time stamp 300; after A then B the
    database holds the fields of neither.
  \<^item> B does not cover A: A has the key \<open>league_name\<close>, B does not. After A then B the
    league name is A's, after B then A it is null.
  \<^item> B's score is \<open>None\<close> and the event is new: after A then B the home score is
    null, after B then A it is the column default 0.
\<close>

theorem merge_monotonic_counterexample:
  "upserts empty_store
     [(ex_event 1000 (Val ''10'') 100 ''p'' ''scheduled'' PyNone, ex_source ''p'' ''1''),
      (ex_event 1000 (Val ''10'') 200 ''p'' ''scheduled'' PyNone, ex_source ''p'' ''2'')]
   = \<lparr> events = [ex_row 1 1000 (Some ''10'') 100 ''p'' ''scheduled'' None],
       mappings = [ex_mapping 1 1 ''p'' ''1''] \<rparr> \<and>
   upserts empty_store
     [(ex_event 1000 (Val ''10'') 200 ''p'' ''scheduled'' PyNone, ex_source ''p'' ''2''),
      (ex_event 1000 (Val ''10'') 100 ''p'' ''scheduled'' PyNone, ex_source ''p'' ''1'')]
   = \<lparr> events = [ex_row 1 1000 (Some ''10'') 200 ''p'' ''scheduled'' None],
       mappings = [ex_mapping 1 1 ''p'' ''2''] \<rparr> \<and>
   upserts \<lparr> events = [ex_row 1 1000 (Some ''10'') 50 ''p2'' ''scheduled'' None],
             mappings = [ex_mapping 1 1 ''p2'' ''y''] \<rparr>
     [(ex_event 1000 (Val ''10'') 100 ''p1'' ''scheduled'' PyNone, ex_source ''p1'' ''x''),
      (ex_event 2000 (Val ''10'') 200 ''p2'' ''scheduled'' PyNone, ex_source ''p2'' ''y'')]
   = \<lparr> events = [ex_row 1 2000 (Some ''10'') 200 ''p2'' ''scheduled'' None],
       mappings = [ex_mapping 1 1 ''p2'' ''y'', ex_mapping 2 1 ''p1'' ''x''] \<rparr> \<and>
   upserts \<lparr> events = [ex_row 1 1000 (Some ''10'') 50 ''p2'' ''scheduled'' None],
             mappings = [ex_mapping 1 1 ''p2'' ''y''] \<rparr>
     [(ex_event 2000 (Val ''10'') 200 ''p2'' ''scheduled'' PyNone, ex_source ''p2'' ''y''),
      (ex_event 1000 (Val ''10'') 100 ''p1'' ''scheduled'' PyNone, ex_source ''p1'' ''x'')]
   = \<lparr> events = [ex_row 1 2000 (Some ''10'') 200 ''p2'' ''scheduled'' None,
                 ex_row 2 1000 (Some ''10'') 100 ''p1'' ''scheduled'' None],
       mappings = [ex_mapping 1 1 ''p2'' ''y'', ex_mapping 2 2 ''p1'' ''x''] \<rparr> \<and>
   events (upserts \<lparr> events = [ex_row 1 1000 (Some ''10'') 300 ''p0'' ''scheduled'' None],
             mappings = [ex_mapping 1 1 ''p0'' ''z''] \<rparr>
     [(ex_event 1000 (Val ''10'') 100 ''p1'' ''scheduled'' PyNone, ex_source ''p1'' ''x''),
      (ex_event 1000 (Val ''10'') 200 ''p2'' ''scheduled'' PyNone, ex_source ''p2'' ''y'')])
   = [ex_row 1 1000 (Some ''10'') 300 ''p0'' ''scheduled'' None] \<and>
   events (upserts empty_store
     [((ex_event 1000 (Val ''10'') 100 ''p1'' ''scheduled'' PyNone) \<lparr> k_league_name := Val ''L'' \<rparr>,
       ex_source ''p1'' ''x''),
      ((ex_event 1000 (Val ''10'') 200 ''p2'' ''scheduled'' PyNone) \<lparr> k_league_name := Absent \<rparr>,
       ex_source ''p2'' ''y'')])
   = [(ex_row 1 1000 (Some ''10'') 200 ''p2'' ''scheduled'' None) \<lparr> league_name := Some ''L'' \<rparr>] \<and>
   events (upserts empty_store
     [((ex_event 1000 (Val ''10'') 200 ''p2'' ''scheduled'' PyNone) \<lparr> k_league_name := Absent \<rparr>,
       ex_source ''p2'' ''y''),
      ((ex_event 1000 (Val ''10'') 100 ''p1'' ''scheduled'' PyNone) \<lparr> k_league_name := Val ''L'' \<rparr>,
       ex_source ''p1'' ''x'')])
   = [ex_row 1 1000 (Some ''10'') 200 ''p2'' ''scheduled'' None] \<and>
   events (upserts empty_store
     [(ex_event 1000 (Val ''10'') 100 ''p1'' ''scheduled'' PyNone, ex_source ''p1'' ''x''),
      ((ex_event 1000 (Val ''10'') 200 ''p2'' ''scheduled'' PyNone) \<lparr> k_home_score := PyNone \<rparr>,
       ex_source ''p2'' ''y'')])
   = [(ex_row 1 1000 (Some ''10'') 200 ''p2'' ''scheduled'' None) \<lparr> home_score := None \<rparr>] \<and>
   events (upserts empty_store
     [((ex_event 1000 (Val ''10'') 200 ''p2'' ''scheduled'' PyNone) \<lparr> k_home_score := PyNone \<rparr>,
       ex_source ''p2'' ''y''),
      (ex_event 1000 (Val ''10'') 100 ''p1'' ''scheduled'' PyNone, ex_source ''p1'' ''x'')])
   = [ex_row 1 1000 (Some ''10'') 200 ''p2'' ''scheduled'' None]"
proof -
  have 1: "upserts empty_store
     [(ex_event 1000 (Val ''10'') 100 ''p'' ''scheduled'' PyNone, ex_source ''p'' ''1''),
      (ex_event 1000 (Val ''10'') 200 ''p'' ''scheduled'' PyNone, ex_source ''p'' ''2'')]
   = \<lparr> events = [ex_row 1 1000 (Some ''10'') 100 ''p'' ''scheduled'' None],
       mappings = [ex_mapping 1 1 ''p'' ''1''] \<rparr>"
    by (simp add: upsert_defs ex_defs)
  have 2: "upserts empty_store
     [(ex_event 1000 (Val ''10'') 200 ''p'' ''scheduled'' PyNone, ex_source ''p'' ''2''),
      (ex_event 1000 (Val ''10'') 100 ''p'' ''scheduled'' PyNone, ex_source ''p'' ''1'')]
   = \<lparr> events = [ex_row 1 1000 (Some ''10'') 200 ''p'' ''scheduled'' None],
       mappings = [ex_mapping 1 1 ''p'' ''2''] \<rparr>"
    by (simp add: upsert_defs ex_defs)
  have 3: "upserts \<lparr> events = [ex_row 1 1000 (Some ''10'') 50 ''p2'' ''scheduled'' None],
             mappings = [ex_mapping 1 1 ''p2'' ''y''] \<rparr>
     [(ex_event 1000 (Val ''10'') 100 ''p1'' ''scheduled'' PyNone, ex_source ''p1'' ''x''),
      (ex_event 2000 (Val ''10'') 200 ''p2'' ''scheduled'' PyNone, ex_source ''p2'' ''y'')]
   = \<lparr> events = [ex_row 1 2000 (Some ''10'') 200 ''p2'' ''scheduled'' None],
       mappings = [ex_mapping 1 1 ''p2'' ''y'', ex_mapping 2 1 ''p1'' ''x''] \<rparr>"
    by (simp add: upsert_defs ex_defs)
  have 4: "upserts \<lparr> events = [ex_row 1 1000 (Some ''10'') 50 ''p2'' ''scheduled'' None],
             mappings = [ex_mapping 1 1 ''p2'' ''y''] \<rparr>
     [(ex_event 2000 (Val ''10'') 200 ''p2'' ''scheduled'' PyNone, ex_source ''p2'' ''y''),
      (ex_event 1000 (Val ''10'') 100 ''p1'' ''scheduled'' PyNone, ex_source ''p1'' ''x'')]
   = \<lparr> events = [ex_row 1 2000 (Some ''10'') 200 ''p2'' ''scheduled'' None,
                 ex_row 2 1000 (Some ''10'') 100 ''p1'' ''scheduled'' None],
       mappings = [ex_mapping 1 1 ''p2'' ''y'', ex_mapping 2 2 ''p1'' ''x''] \<rparr>"
    by (simp add: upsert_defs ex_defs)
  have 5: "events (upserts \<lparr> events = [ex_row 1 1000 (Some ''10'') 300 ''p0'' ''scheduled'' None],
             mappings = [ex_mapping 1 1 ''p0'' ''z''] \<rparr>
     [(ex_event 1000 (Val ''10'') 100 ''p1'' ''scheduled'' PyNone, ex_source ''p1'' ''x''),
      (ex_event 1000 (Val ''10'') 200 ''p2'' ''scheduled'' PyNone, ex_source ''p2'' ''y'')])
   = [ex_row 1 1000 (Some ''10'') 300 ''p0'' ''scheduled'' None]"
    by (simp add: upsert_defs ex_defs)
  have 6: "events (upserts empty_store
     [((ex_event 1000 (Val ''10'') 100 ''p1'' ''scheduled'' PyNone) \<lparr> k_league_name := Val ''L'' \<rparr>,
       ex_source ''p1'' ''x''),
      ((ex_event 1000 (Val ''10'') 200 ''p2'' ''scheduled'' PyNone) \<lparr> k_league_name := Absent \<rparr>,
       ex_source ''p2'' ''y'')])
   = [(ex_row 1 1000 (Some ''10'') 200 ''p2'' ''scheduled'' None) \<lparr> league_name := Some ''L'' \<rparr>]"
    by (simp add: upsert_defs ex_defs)
  have 7: "events (upserts empty_store
     [((ex_event 1000 (Val ''10'') 200 ''p2'' ''scheduled'' PyNone) \<lparr> k_league_name := Absent \<rparr>,
       ex_source ''p2'' ''y''),
      ((ex_event 1000 (Val ''10'') 100 ''p1'' ''scheduled'' PyNone) \<lparr> k_league_name := Val ''L'' \<rparr>,
       ex_source ''p1'' ''x'')])
   = [ex_row 1 1000 (Some ''10'') 200 ''p2'' ''scheduled'' None]"
    by (simp add: upsert_defs ex_defs)
  have 8: "events (upserts empty_store
     [(ex_event 1000 (Val ''10'') 100 ''p1'' ''scheduled'' PyNone, ex_source ''p1'' ''x''),
      ((ex_event 1000 (Val ''10'') 200 ''p2'' ''scheduled'' PyNone) \<lparr> k_home_score := PyNone \<rparr>,
       ex_source ''p2'' ''y'')])
   = [(ex_row 1 1000 (Some ''10'') 200 ''p2'' ''scheduled'' None) \<lparr> home_score := None \<rparr>]"
    by (simp add: upsert_defs ex_defs)
  have 9: "events (upserts empty_store
     [((ex_event 1000 (Val ''10'') 200 ''p2'' ''scheduled'' PyNone) \<lparr> k_home_score := PyNone \<rparr>,
       ex_source ''p2'' ''y''),
      (ex_event 1000 (Val ''10'') 100 ''p1'' ''scheduled'' PyNone, ex_source ''p1'' ''x'')])
   = [ex_row 1 1000 (Some ''10'') 200 ''p2'' ''scheduled'' None]"
    by (simp add: upsert_defs ex_defs)
  show ?thesis
    by (intro conjI) (rule 1 2 3 4 5 6 7 8 9)+
qed


subsection \<open>The deduplication key\<close>

text \<open>
  Claim C2 at a failing input: three calls on the empty database, for a provider that
  gives no league id. The first two create the events 1 and 2 of the same teams with
  different start instants; the third, through the mapping of event 1, moves event 1
  to the start instant of event 2. The unique constraint does not compare rows with a
  null \<open>league_id\<close>, the commit succeeds, and two events carry the same tuple.
\<close>

theorem dedup_broken_null_league:
  "distinct (map dedup_key (events empty_store)) \<and>
   events (upserts empty_store
     [(ex_event 1000 PyNone 100 ''thesportsdb'' ''scheduled'' PyNone, ex_source ''thesportsdb'' ''1''),
      (ex_event 2000 PyNone 100 ''thesportsdb'' ''scheduled'' PyNone, ex_source ''thesportsdb'' ''2''),
      (ex_event 2000 PyNone 200 ''thesportsdb'' ''scheduled'' PyNone, ex_source ''thesportsdb'' ''1'')])
   = [ex_row 1 2000 None 200 ''thesportsdb'' ''scheduled'' None,
      ex_row 2 2000 None 100 ''thesportsdb'' ''scheduled'' None] \<and>
   dedup_key (ex_row 1 2000 None 200 ''thesportsdb'' ''scheduled'' None)
     = dedup_key (ex_row 2 2000 None 100 ''thesportsdb'' ''scheduled'' None) \<and>
   \<not> distinct (map dedup_key (events (upserts empty_store
     [(ex_event 1000 PyNone 100 ''thesportsdb'' ''scheduled'' PyNone, ex_source ''thesportsdb'' ''1''),
      (ex_event 2000 PyNone 100 ''thesportsdb'' ''scheduled'' PyNone, ex_source ''thesportsdb'' ''2''),
      (ex_event 2000 PyNone 200 ''thesportsdb'' ''scheduled'' PyNone, ex_source ''thesportsdb'' ''1'')])))"
  by (simp add: upsert_defs ex_defs)

text \<open>
  The same three calls for a provider that gives the league id 7: the constraint
  refuses the third call, the rollback keeps event 1 where it was, and the call returns
  event 2.
\<close>

lemma dedup_kept_with_league:
  "upserts empty_store
     [(ex_event 1000 (Val ''7'') 100 ''sofascore'' ''scheduled'' PyNone, ex_source ''sofascore'' ''1''),
      (ex_event 2000 (Val ''7'') 100 ''sofascore'' ''scheduled'' PyNone, ex_source ''sofascore'' ''2'')]
   = \<lparr> events = [ex_row 1 1000 (Some ''7'') 100 ''sofascore'' ''scheduled'' None,
                  ex_row 2 2000 (Some ''7'') 100 ''sofascore'' ''scheduled'' None],
       mappings = [ex_mapping 1 1 ''sofascore'' ''1'', ex_mapping 2 2 ''sofascore'' ''2''] \<rparr> \<and>
   save_or_update_event
     \<lparr> events = [ex_row 1 1000 (Some ''7'') 100 ''sofascore'' ''scheduled'' None,
                  ex_row 2 2000 (Some ''7'') 100 ''sofascore'' ''scheduled'' None],
       mappings = [ex_mapping 1 1 ''sofascore'' ''1'', ex_mapping 2 2 ''sofascore'' ''2''] \<rparr>
     (ex_event 2000 (Val ''7'') 200 ''sofascore'' ''scheduled'' PyNone) (ex_source ''sofascore'' ''1'')
   = (ConflictResolved (ex_row 2 2000 (Some ''7'') 100 ''sofascore'' ''scheduled'' None),
      \<lparr> events = [ex_row 1 1000 (Some ''7'') 100 ''sofascore'' ''scheduled'' None,
                   ex_row 2 2000 (Some ''7'') 100 ''sofascore'' ''scheduled'' None],
        mappings = [ex_mapping 1 1 ''sofascore'' ''1'', ex_mapping 2 2 ''sofascore'' ''2''] \<rparr>)"
  by (simp add: upsert_defs ex_defs)

text \<open>
  For the events whose league id is not null the constraint does keep the tuple
  unique: a database with distinct primary keys and no violated pair stays so through
  every sequence of calls, and two of its events with the same tuple and a league id are
  the same event.
\<close>

lemma uq_violated_sym:
  "uq_event_canonical_violated e r \<Longrightarrow> uq_event_canonical_violated r e"
  by (auto simp: uq_event_canonical_violated_def dedup_key_def)

lemma save_invalid:
  "validate d m = None \<Longrightarrow> save_or_update_event s d m = (ValidationFailed, s)"
  by (simp add: save_or_update_event_def save_or_update_event_on_def)

lemma save_keeps_uq:
  assumes dist: "distinct (map ev_id (events s))"
    and uq: "\<forall>x\<in>set (events s). \<forall>y\<in>set (events s).
               ev_id x \<noteq> ev_id y \<longrightarrow> \<not> uq_event_canonical_violated x y"
  shows "\<forall>x\<in>set (events (snd (save_or_update_event s d m))).
           \<forall>y\<in>set (events (snd (save_or_update_event s d m))).
             ev_id x \<noteq> ev_id y \<longrightarrow> \<not> uq_event_canonical_violated x y"
proof (cases "validate d m")
  case None
  then show ?thesis using uq by (simp add: save_invalid)
next
  case (Some a)
  let ?its = "a_incoming_last_updated_timestamp a"
  from save_cases [OF Some, of s] show ?thesis
  proof (elim disjE exE conjE)
    assume "events (snd (save_or_update_event s d m)) = events s"
    then show ?thesis using uq by simp
  next
    fix target stored
    let ?merged = "apply_update d (a_source_name a) ?its target"
    assume ev: "events (snd (save_or_update_event s d m)) =
        map (\<lambda>x. if ev_id x = ev_id target then ?merged else x) (events s)"
      and q: "\<forall>r\<in>set (events s). ev_id r \<noteq> ev_id target \<longrightarrow>
                \<not> uq_event_canonical_violated ?merged r"
    have mem: "x = ?merged \<or> (x \<in> set (events s) \<and> ev_id x \<noteq> ev_id target)"
      if "x \<in> set (events (snd (save_or_update_event s d m)))" for x
      using that unfolding ev by (auto split: if_splits)
    show ?thesis
    proof (intro ballI impI)
      fix x y
      assume x: "x \<in> set (events (snd (save_or_update_event s d m)))"
        and y: "y \<in> set (events (snd (save_or_update_event s d m)))"
        and ne: "ev_id x \<noteq> ev_id y"
      from mem [OF x] mem [OF y] show "\<not> uq_event_canonical_violated x y"
      proof (elim disjE conjE)
        assume "x = ?merged" "y = ?merged"
        then show ?thesis using ne by simp
      next
        assume "x = ?merged" "y \<in> set (events s)" "ev_id y \<noteq> ev_id target"
        then show ?thesis using q by simp
      next
        assume "x \<in> set (events s)" "ev_id x \<noteq> ev_id target" "y = ?merged"
        then show ?thesis using q uq_violated_sym by blast
      next
        assume "x \<in> set (events s)" "y \<in> set (events s)"
        then show ?thesis using uq ne by simp
      qed
    qed
  next
    assume ev: "events (snd (save_or_update_event s d m)) = events s @ [new_row s d a]"
      and q: "\<forall>r\<in>set (events s). \<not> uq_event_canonical_violated (new_row s d a) r"
    show ?thesis
      unfolding ev using uq q uq_violated_sym by auto
  qed
qed

lemma save_keeps_distinct_ids:
  assumes "distinct (map ev_id (events s))"
  shows "distinct (map ev_id (events (snd (save_or_update_event s d m))))"
proof (cases "validate d m")
  case None
  then show ?thesis using assms by (simp add: save_invalid)
next
  case (Some a)
  then show ?thesis using assms by (rule save_distinct_ids)
qed

lemma upserts_keep_constraint:
  assumes "distinct (map ev_id (events s))"
    and "\<forall>x\<in>set (events s). \<forall>y\<in>set (events s).
               ev_id x \<noteq> ev_id y \<longrightarrow> \<not> uq_event_canonical_violated x y"
  shows "distinct (map ev_id (events (upserts s calls))) \<and>
         (\<forall>x\<in>set (events (upserts s calls)). \<forall>y\<in>set (events (upserts s calls)).
               ev_id x \<noteq> ev_id y \<longrightarrow> \<not> uq_event_canonical_violated x y)"
  using assms
proof (induction calls arbitrary: s)
  case Nil
  then show ?case by simp
next
  case (Cons c calls)
  obtain d m where c: "c = (d, m)" by (cases c)
  show ?case
    unfolding c upserts.simps
    by (rule Cons.IH [OF save_keeps_distinct_ids [OF Cons.prems(1)]
          save_keeps_uq [OF Cons.prems(1) Cons.prems(2)]])
qed

lemma dedup_with_league:
  assumes "distinct (map ev_id (events s))"
    and "\<forall>x\<in>set (events s). \<forall>y\<in>set (events s).
               ev_id x \<noteq> ev_id y \<longrightarrow> \<not> uq_event_canonical_violated x y"
    and x: "x \<in> set (events (upserts s calls))" and y: "y \<in> set (events (upserts s calls))"
    and k: "dedup_key x = dedup_key y"
    and nn: "event_timestamp x \<noteq> None" "home_team_name x \<noteq> None" "away_team_name x \<noteq> None"
      "league_id x \<noteq> None"
  shows "x = y"
proof (rule ccontr)
  assume "x \<noteq> y"
  from upserts_keep_constraint [OF assms(1,2), of calls]
  have d: "distinct (map ev_id (events (upserts s calls)))"
    and u: "\<forall>x\<in>set (events (upserts s calls)). \<forall>y\<in>set (events (upserts s calls)).
               ev_id x \<noteq> ev_id y \<longrightarrow> \<not> uq_event_canonical_violated x y"
    by simp_all
  have "ev_id x \<noteq> ev_id y" using distinct_ids_eq [OF d x y] \<open>x \<noteq> y\<close> by blast
  then have "\<not> uq_event_canonical_violated x y" using u x y by blast
  then show False using k nn by (simp add: uq_event_canonical_violated_def)
qed

subsection \<open>Integrity errors\<close>

lemma truthy_str_Some: "truthy_str x = Some v \<Longrightarrow> x = Val v"
  by (cases x) (auto split: if_splits)

lemma truthy_datetime_Some: "truthy_datetime x = Some v \<Longrightarrow> x = Val v"
  by (cases x) auto

lemma validate_fields:
  assumes "validate d m = Some a"
  shows "k_event_timestamp d = Val (a_event_timestamp a)"
    and "k_home_team_name d = Val (a_home_team_name a)"
    and "k_away_team_name d = Val (a_away_team_name a)"
    and "a_league_id a = dict_get (k_league_id d)"
  using assms
  by (auto simp: validate_def Option.bind_eq_Some_conv
        dest!: truthy_str_Some truthy_datetime_Some)

lemma assign_present: "x \<noteq> Absent \<Longrightarrow> assign x old = dict_get x"
  by (cases x) auto

lemma find_by_attributes_None:
  "find_event_by_attributes s a = None \<longleftrightarrow> (\<forall>r\<in>set (events s). \<not> key_matches a r)"
  by (auto simp: find_event_by_attributes_def find_None_iff key_matches_def)

lemma merged_key:
  assumes v: "validate d m = Some a" and l: "k_league_id d \<noteq> Absent"
  shows "key_matches a (apply_update d sn its e)"
  using validate_fields [OF v] l
  by (simp add: key_matches_def apply_update_def assign_present)

lemma new_row_key:
  assumes v: "validate d m = Some a"
  shows "key_matches a (new_row s d a)"
  using validate_fields [OF v]
  by (simp add: key_matches_def new_row_def insert_values_def Event_init_def)

lemma violated_key:
  "uq_event_canonical_violated e r \<Longrightarrow> key_matches a e \<Longrightarrow> key_matches a r"
  by (auto simp: uq_event_canonical_violated_def dedup_key_def key_matches_def)

lemma merged_not_null:
  assumes v: "validate d m = Some a"
    and n: "\<exists>x. k_event_name d = Val x" "\<exists>x. k_sport_name d = Val x" "\<exists>x. k_event_status d = Val x"
  shows "not_null_ok (apply_update d sn its e)"
  using validate_fields [OF v] n by (auto simp: not_null_ok_def apply_update_def)

lemma new_row_not_null:
  assumes v: "validate d m = Some a"
    and n: "\<exists>x. k_event_name d = Val x" "\<exists>x. k_sport_name d = Val x" "\<exists>x. k_event_status d = Val x"
  shows "not_null_ok (new_row s d a)"
  using validate_fields [OF v] n
  by (auto simp: not_null_ok_def new_row_def insert_values_def Event_init_def)

lemma resolve_target_shape:
  assumes "resolve_target s a = Inr (mp, found)"
  shows "(mp = None \<and> find_mapping s (a_source_name a) (a_source_event_id a) = None \<and>
          found = find_event_by_attributes s a) \<or> (mp \<noteq> None \<and> found \<noteq> None)"
proof (cases "find_mapping s (a_source_name a) (a_source_event_id a)")
  case None
  then show ?thesis using assms by (simp add: resolve_target_def)
next
  case (Some x)
  then show ?thesis using assms
    by (cases "mapping_event s x") (auto simp: resolve_target_def)
qed

lemma raced_on_integrity_error:
  assumes v: "validate d m = Some a" and ie: "attempt s s' d a = Inl IntegrityError"
  shows "save_or_update_event_raced s s' d m =
           (case find_event_by_attributes s' a of
              Some e \<Rightarrow> ConflictResolved e | None \<Rightarrow> ConflictUnresolved, s')"
  using v ie
  by (simp add: save_or_update_event_raced_def save_or_update_event_on_def split: option.splits)

lemma update_event_integrity:
  assumes "update_event s e = Inl IntegrityError" and "not_null_ok e"
  shows "\<exists>r\<in>set (events s). uq_event_canonical_violated e r"
  using assms by (auto simp: update_event_def list_ex_iff split: if_splits)

lemma insert_event_integrity:
  assumes "insert_event s d (Event_init d (a_source_name a)) = Inl IntegrityError"
    and "not_null_ok (new_row s d a)"
  shows "\<exists>r\<in>set (events s). uq_event_canonical_violated (new_row s d a) r"
  using assms by (auto simp: insert_event_def new_row_def Let_def list_ex_iff split: if_splits)

lemma find_mapping_None:
  "find_mapping s sn sid = None \<longleftrightarrow>
     (\<forall>r\<in>set (mappings s). \<not> (source_name r = sn \<and> source_event_id r = sid))"
  by (auto simp: find_mapping_def find_None_iff)

lemma insert_mapping_new_event_ok:
  assumes nomap: "find_mapping s sn sid = None"
    and fk: "\<forall>mp\<in>set (mappings s). list_ex (\<lambda>e. ev_id e = event_id mp) (events s)"
    and id: "ev_id row = fresh_id (map ev_id (events s))"
  shows "insert_mapping (s \<lparr> events := events s @ [row] \<rparr>) (ev_id row) sn sid \<noteq> Inl IntegrityError"
proof -
  have a: "\<not> list_ex (\<lambda>r. source_name r = sn \<and> source_event_id r = sid) (mappings s)"
    using nomap by (auto simp: find_mapping_None list_ex_iff)
  have "event_id mp \<noteq> fresh_id (map ev_id (events s))" if "mp \<in> set (mappings s)" for mp
  proof -
    from fk that obtain e where "e \<in> set (events s)" "ev_id e = event_id mp"
      by (auto simp: list_ex_iff)
    then show ?thesis using fresh_id_notin [of "map ev_id (events s)"] by force
  qed
  then have b: "\<not> list_ex (\<lambda>r. event_id r = fresh_id (map ev_id (events s)) \<and> source_name r = sn)
                    (mappings s)"
    by (auto simp: list_ex_iff)
  show ?thesis
    using a b
    by (auto simp: insert_mapping_def Let_def id uq_source_event_violated_def
          uq_event_id_source_violated_def list_ex_iff)
qed

lemma sequential_integrity_resolves:
  assumes v: "validate d m = Some a"
    and ie: "attempt s s d a = Inl IntegrityError"
    and fk: "\<forall>mp\<in>set (mappings s). list_ex (\<lambda>e. ev_id e = event_id mp) (events s)"
    and n: "\<exists>x. k_event_name d = Val x" "\<exists>x. k_sport_name d = Val x" "\<exists>x. k_event_status d = Val x"
    and l: "k_league_id d \<noteq> Absent"
  shows "\<exists>e. find_event_by_attributes s a = Some e"
proof (rule ccontr)
  assume "\<nexists>e. find_event_by_attributes s a = Some e"
  then have none: "find_event_by_attributes s a = None" by simp
  then have nokey: "\<forall>r\<in>set (events s). \<not> key_matches a r"
    by (simp add: find_by_attributes_None)
  let ?its = "a_incoming_last_updated_timestamp a"
  show False
  proof (cases "resolve_target s a")
    case (Inl e)
    then have "attempt s s d a = Inl AttributeError"
      by (auto simp: attempt_def bind_err_def resolve_target_def split: option.splits)
    then show False using ie by simp
  next
    case (Inr p)
    obtain mp found where p: "p = (mp, found)" by (cases p)
    note r = Inr [unfolded p]
    from resolve_target_shape [OF r] show False
    proof (elim disjE conjE)
      assume mp: "mp = None" and nomap: "find_mapping s (a_source_name a) (a_source_event_id a) = None"
        and f: "found = find_event_by_attributes s a"
      then have r': "resolve_target s a = Inr (mp, None)" using r none by simp
      note A = attempt_new [OF r', of d]
      from insert_event_cases [of s d a] show False
      proof
        assume i: "insert_event s d (Event_init d (a_source_name a)) = Inl IntegrityError"
        from insert_event_integrity [OF i new_row_not_null [OF v n]]
        obtain x where "x \<in> set (events s)" "uq_event_canonical_violated (new_row s d a) x" by blast
        then show False using violated_key [OF _ new_row_key [OF v]] nokey by blast
      next
        assume "insert_event s d (Event_init d (a_source_name a))
                     = Inr (s \<lparr> events := events s @ [new_row s d a] \<rparr>, new_row s d a) \<and>
                (\<forall>r\<in>set (events s). \<not> uq_event_canonical_violated (new_row s d a) r)"
        then have i: "insert_event s d (Event_init d (a_source_name a))
                     = Inr (s \<lparr> events := events s @ [new_row s d a] \<rparr>, new_row s d a)"
          and q: "\<forall>r\<in>set (events s). \<not> uq_event_canonical_violated (new_row s d a) r"
          by simp_all
        have "insert_mapping (s \<lparr> events := events s @ [new_row s d a] \<rparr>) (ev_id (new_row s d a))
                (a_source_name a) (a_source_event_id a) \<noteq> Inl IntegrityError"
          by (rule insert_mapping_new_event_ok [OF nomap fk]) simp
        then show False
          using ie by (auto simp: A i mp bind_err_def commit_def split: sum.splits)
      qed
    next
      assume mp: "mp \<noteq> None" and "found \<noteq> None"
      then obtain target where found: "found = Some target" by auto
      note r' = r [unfolded found]
      have tin: "target \<in> set (events s)" by (rule resolve_target_in_events [OF r'])
      show False
      proof (cases "last_updated_timestamp target")
        case None
        then have "attempt s s d a = Inl TypeError"
          by (simp add: attempt_def r' bind_err_def should_update_def)
        then show False using ie by simp
      next
        case (Some stored)
        note A = attempt_existing [OF r' Some, of d]
        let ?merged = "apply_update d (a_source_name a) ?its target"
        have "update_event s ?merged = Inl IntegrityError"
          using ie mp by (auto simp: A Let_def bind_err_def commit_def split: if_splits sum.splits)
        from update_event_integrity [OF this merged_not_null [OF v n]]
        obtain x where "x \<in> set (events s)" "uq_event_canonical_violated ?merged x" by blast
        then show False using violated_key [OF _ merged_key [OF v l]] nokey by blast
      qed
    qed
  qed
qed

lemma find_by_attributes_key:
  "find_event_by_attributes s a = Some e \<Longrightarrow> key_matches a e"
  by (auto simp: find_event_by_attributes_def find_Some_iff key_matches_def)

text \<open>
  Claim C9, as amended. When the \<open>try\<close> body raises \<open>IntegrityError\<close>, also with
  another session's commit between the lookups and the writes, nothing of the
  transaction persists: the database is the one the other session left. The event is
  looked up again by the incoming attributes and returned when there is one; when
  there is none the call returns \<open>None\<close>. With no other writer, every mapping
  pointing to a stored event, and a record that carries name, sport, status and the
  key \<open>league_id\<close>, there is always one: the call returns an event with the incoming
  attributes.
\<close>

theorem integrity_error_recovery:
  assumes v: "validate d m = Some a" and ie: "attempt s s' d a = Inl IntegrityError"
  shows "save_or_update_event_raced s s' d m =
           (case find_event_by_attributes s' a of
              Some e \<Rightarrow> ConflictResolved e | None \<Rightarrow> ConflictUnresolved, s') \<and>
         (s' = s \<and>
          (\<forall>mp\<in>set (mappings s). list_ex (\<lambda>e. ev_id e = event_id mp) (events s)) \<and>
          (\<exists>x. k_event_name d = Val x) \<and> (\<exists>x. k_sport_name d = Val x) \<and>
          (\<exists>x. k_event_status d = Val x) \<and> k_league_id d \<noteq> Absent
          \<longrightarrow> (\<exists>e. save_or_update_event s d m = (ConflictResolved e, s) \<and>
                   e \<in> set (events s) \<and> key_matches a e))"
proof (intro conjI impI)
  show "save_or_update_event_raced s s' d m =
           (case find_event_by_attributes s' a of
              Some e \<Rightarrow> ConflictResolved e | None \<Rightarrow> ConflictUnresolved, s')"
    by (rule raced_on_integrity_error [OF v ie])
next
  assume h: "s' = s \<and>
          (\<forall>mp\<in>set (mappings s). list_ex (\<lambda>e. ev_id e = event_id mp) (events s)) \<and>
          (\<exists>x. k_event_name d = Val x) \<and> (\<exists>x. k_sport_name d = Val x) \<and>
          (\<exists>x. k_event_status d = Val x) \<and> k_league_id d \<noteq> Absent"
  then have ie': "attempt s s d a = Inl IntegrityError" using ie by simp
  from h sequential_integrity_resolves [OF v ie']
  obtain e where f: "find_event_by_attributes s a = Some e" by blast
  have "save_or_update_event s d m = (ConflictResolved e, s)"
    using raced_on_integrity_error [OF v ie'] f
    by (simp add: save_or_update_event_raced_def save_or_update_event_def)
  then show "\<exists>e. save_or_update_event s d m = (ConflictResolved e, s) \<and>
                e \<in> set (events s) \<and> key_matches a e"
    using find_by_attributes_in [OF f] find_by_attributes_key [OF f] by blast
qed

theorem integrity_error_recovery_witness:
  "validate (ex_event 1000 (Val ''10'') 200 ''p'' ''scheduled'' PyNone) (ex_source ''p'' ''2'')
     = Some \<lparr> a_event_timestamp = 1000, a_home_team_name = ''A'', a_away_team_name = ''B'',
              a_league_id = Some ''10'', a_incoming_last_updated_timestamp = 200,
              a_source_name = ''p'', a_source_event_id = ''2'' \<rparr> \<and>
   attempt
     \<lparr> events = [ex_row 1 1000 (Some ''10'') 100 ''p'' ''scheduled'' None],
       mappings = [ex_mapping 1 1 ''p'' ''1''] \<rparr>
     \<lparr> events = [ex_row 1 1000 (Some ''10'') 100 ''p'' ''scheduled'' None],
       mappings = [ex_mapping 1 1 ''p'' ''1''] \<rparr>
     (ex_event 1000 (Val ''10'') 200 ''p'' ''scheduled'' PyNone)
     \<lparr> a_event_timestamp = 1000, a_home_team_name = ''A'', a_away_team_name = ''B'',
       a_league_id = Some ''10'', a_incoming_last_updated_timestamp = 200,
       a_source_name = ''p'', a_source_event_id = ''2'' \<rparr> = Inl IntegrityError \<and>
   save_or_update_event_raced
     \<lparr> events = [ex_row 1 1000 (Some ''10'') 100 ''p'' ''scheduled'' None],
       mappings = [ex_mapping 1 1 ''p'' ''1''] \<rparr>
     \<lparr> events = [ex_row 1 1000 (Some ''10'') 100 ''p'' ''scheduled'' None],
       mappings = [ex_mapping 1 1 ''p'' ''1''] \<rparr>
     (ex_event 1000 (Val ''10'') 200 ''p'' ''scheduled'' PyNone) (ex_source ''p'' ''2'')
   = (ConflictResolved (ex_row 1 1000 (Some ''10'') 100 ''p'' ''scheduled'' None),
      \<lparr> events = [ex_row 1 1000 (Some ''10'') 100 ''p'' ''scheduled'' None],
        mappings = [ex_mapping 1 1 ''p'' ''1''] \<rparr>)"
proof -
  let ?s = "\<lparr> events = [ex_row 1 1000 (Some ''10'') 100 ''p'' ''scheduled'' None],
              mappings = [ex_mapping 1 1 ''p'' ''1''] \<rparr>"
  let ?d = "ex_event 1000 (Val ''10'') 200 ''p'' ''scheduled'' PyNone"
  let ?a = "\<lparr> a_event_timestamp = 1000, a_home_team_name = ''A'', a_away_team_name = ''B'',
              a_league_id = Some ''10'', a_incoming_last_updated_timestamp = 200,
              a_source_name = ''p'', a_source_event_id = ''2'' \<rparr>"
  have v: "validate ?d (ex_source ''p'' ''2'') = Some ?a"
    by (simp add: validate_def ex_defs)
  have ie: "attempt ?s ?s ?d ?a = Inl IntegrityError"
    by (simp add: upsert_defs ex_defs)
  have f: "find_event_by_attributes ?s ?a
             = Some (ex_row 1 1000 (Some ''10'') 100 ''p'' ''scheduled'' None)"
    by (simp add: find_event_by_attributes_def key_matches_def ex_defs)
  have R: "save_or_update_event_raced ?s ?s ?d (ex_source ''p'' ''2'') =
           (case find_event_by_attributes ?s ?a of
              Some e \<Rightarrow> ConflictResolved e | None \<Rightarrow> ConflictUnresolved, ?s)"
    using integrity_error_recovery [OF v ie] by (rule conjunct1)
  show ?thesis
    unfolding R f using v ie by simp
qed

text \<open>
  Claim C9 as stated fails: another session has stored the provider's event
  \<open>(p, 1)\<close> with the start instant 1000 while this call, which read the empty
  database, brings the start instant 2000. The new mapping violates
  \<open>uq_source_event\<close>, the second lookup finds no event starting at 2000, and the call
  returns \<open>None\<close>.
\<close>

theorem race_unresolved_counterexample:
  "attempt empty_store
     \<lparr> events = [ex_row 1 1000 (Some ''10'') 100 ''p'' ''scheduled'' None],
       mappings = [ex_mapping 1 1 ''p'' ''1''] \<rparr>
     (ex_event 2000 (Val ''10'') 100 ''p'' ''scheduled'' PyNone)
     \<lparr> a_event_timestamp = 2000, a_home_team_name = ''A'', a_away_team_name = ''B'',
       a_league_id = Some ''10'', a_incoming_last_updated_timestamp = 100,
       a_source_name = ''p'', a_source_event_id = ''1'' \<rparr> = Inl IntegrityError \<and>
   save_or_update_event_raced empty_store
     \<lparr> events = [ex_row 1 1000 (Some ''10'') 100 ''p'' ''scheduled'' None],
       mappings = [ex_mapping 1 1 ''p'' ''1''] \<rparr>
     (ex_event 2000 (Val ''10'') 100 ''p'' ''scheduled'' PyNone) (ex_source ''p'' ''1'')
   = (ConflictUnresolved,
      \<lparr> events = [ex_row 1 1000 (Some ''10'') 100 ''p'' ''scheduled'' None],
        mappings = [ex_mapping 1 1 ''p'' ''1''] \<rparr>) \<and>
   returned ConflictUnresolved = None"
  by (simp add: upsert_defs ex_defs)

section \<open>Properties of the monitoring query\<close>

text \<open>
  Claim C4 at a failing input: one scheduled event that starts ten days from now, a
  buffer of 60 minutes. The call raises \<open>NameError\<close>; and the query of lines 173--178,
  given the threshold \<open>now - 60 min\<close>, returns the event, which is not within 60
  minutes of now.
\<close>

theorem monitoring_far_future:
  "get_events_for_monitoring
     \<lparr> events = [ex_row 1 864000 (Some ''10'') 100 ''p'' ''scheduled'' None], mappings = [] \<rparr> 0 60
     = Inl NameError \<and>
   monitoring_query
     \<lparr> events = [ex_row 1 864000 (Some ''10'') 100 ''p'' ''scheduled'' None], mappings = [] \<rparr>
     (0 - 60 * 60)
     = [ex_row 1 864000 (Some ''10'') 100 ''p'' ''scheduled'' None]"
  by (simp add: get_events_for_monitoring_def timedelta_def bind_err_def monitoring_query_def
        monitoring_filter_def ex_defs)

section \<open>Properties of the active branch\<close>

text \<open>
  With both names bound, a match whose data were fetched and normalized gets exactly
  one message when the store call reported success, the Redis client is connected and
  the publish call delivers, and none otherwise.
\<close>

lemma process_match_in_bound:
  assumes "''normalize_sofascore_data'' \<in> set nm" and "''save_match_data'' \<in> set dm"
    and "get_match_data source_id = Some raw" and "raw \<noteq> []"
    and "normalize_sofascore_data raw = Some nd" and "nd \<noteq> []"
  shows "fst (process_match_in nm dm get_match_data normalize_sofascore_data save_match_data
                redis_client publish now source_id db) =
         (if fst (save_match_data nd db) \<and> redis_client \<and> publish (build_message nd now)
          then [build_message nd now] else [])"
  using assms
  by (auto simp: process_match_in_def getattr_def Let_def split: prod.splits)


end
